theory Spec2Isabelle
  imports Complex_Main "HOL-Library.Word"
begin

section \<open>Double arithmetic\<close>

text \<open>
  The exposure times of the programs are C++ \<open>double\<close>s. A \<open>double\<close> is held here as
  the exact number it stands for, or as one of the three special values; every operation
  computes the exact result and rounds it to the nearest binary64 number, ties to the
  even significand, as the default rounding mode does. The two zeros are one value: the
  programs divide only by a count converted from \<open>uint32_t\<close>, which is never the
  negative zero, and the sign of a zero shows nowhere else.
\<close>

datatype double = Finite real | PosInf | NegInf | NaN

text \<open>
  The binary exponent of a magnitude (\<open>2 ^ e \<le> x < 2 ^ (e + 1)\<close>), found by halving
  or doubling. The search stops at 1024, from where every number rounds to an infinity,
  and at -1022, below which the numbers are subnormal and share the exponent -1022.
\<close>

primrec halvings :: "nat \<Rightarrow> real \<Rightarrow> nat" where
  "halvings 0 x = 0"
| "halvings (Suc n) x = (if 2 \<le> x then Suc (halvings n (x / 2)) else 0)"

primrec doublings :: "nat \<Rightarrow> real \<Rightarrow> nat" where
  "doublings 0 x = 0"
| "doublings (Suc n) x = (if x < 1 then Suc (doublings n (2 * x)) else 0)"

definition binade :: "real \<Rightarrow> int" where
  "binade x =
     (if 1 \<le> \<bar>x\<bar> then int (halvings 1024 \<bar>x\<bar>) else - int (doublings 1022 \<bar>x\<bar>))"

definition round_half_even :: "real \<Rightarrow> int" where
  "round_half_even t =
     (let f = \<lfloor>t\<rfloor>; r = t - of_int f
      in if r < 1 / 2 then f else if 1 / 2 < r then f + 1 else if even f then f else f + 1)"

text \<open>
  Rounding to binary64: the significand has 53 bits, so the unit in the last place of a
  number of exponent \<open>e\<close> is \<open>2 ^ (e - 52)\<close>; a result of magnitude \<open>2 ^ 1024\<close> or more
  is an infinity.
\<close>

definition double_limit :: real where
  "double_limit = 2 ^ 1024"

definition round_to_double :: "real \<Rightarrow> double" where
  "round_to_double x =
     (let u = power_int 2 (binade x - 52);
          y = of_int (round_half_even (x / u)) * u
      in if double_limit \<le> \<bar>y\<bar> then (if 0 < x then PosInf else NegInf) else Finite y)"

text \<open>
  A number is a finite double when rounding leaves it as it is: the check a constant
  written in a statement has to pass.
\<close>

definition finite_double :: "double \<Rightarrow> bool" where
  "finite_double d = (case d of Finite x \<Rightarrow> round_to_double x = Finite x | _ \<Rightarrow> False)"

fun dadd :: "double \<Rightarrow> double \<Rightarrow> double" where
  "dadd NaN y = NaN"
| "dadd x NaN = NaN"
| "dadd PosInf NegInf = NaN"
| "dadd NegInf PosInf = NaN"
| "dadd PosInf y = PosInf"
| "dadd x PosInf = PosInf"
| "dadd NegInf y = NegInf"
| "dadd x NegInf = NegInf"
| "dadd (Finite a) (Finite b) = round_to_double (a + b)"

fun dneg :: "double \<Rightarrow> double" where
  "dneg (Finite a) = Finite (- a)"
| "dneg PosInf = NegInf"
| "dneg NegInf = PosInf"
| "dneg NaN = NaN"

definition dsub :: "double \<Rightarrow> double \<Rightarrow> double" where
  "dsub x y = dadd x (dneg y)"

fun ddiv :: "double \<Rightarrow> double \<Rightarrow> double" where
  "ddiv NaN y = NaN"
| "ddiv x NaN = NaN"
| "ddiv (Finite a) (Finite b) =
     (if b = 0 then (if a = 0 then NaN else if 0 < a then PosInf else NegInf)
      else round_to_double (a / b))"
| "ddiv (Finite a) y = Finite 0"
| "ddiv PosInf (Finite b) = (if 0 \<le> b then PosInf else NegInf)"
| "ddiv NegInf (Finite b) = (if 0 \<le> b then NegInf else PosInf)"
| "ddiv x y = NaN"

text \<open>The comparison \<open><\<close> of two doubles: false whenever one of them is not a number.\<close>

fun dless :: "double \<Rightarrow> double \<Rightarrow> bool" where
  "dless NaN y = False"
| "dless x NaN = False"
| "dless (Finite a) (Finite b) = (a < b)"
| "dless x NegInf = False"
| "dless PosInf y = False"
| "dless x y = True"

text \<open>The comparison \<open><=\<close>, false as well whenever one of the two is not a number.\<close>

fun dle :: "double \<Rightarrow> double \<Rightarrow> bool" where
  "dle NaN y = False"
| "dle x NaN = False"
| "dle (Finite a) (Finite b) = (a \<le> b)"
| "dle NegInf y = True"
| "dle x PosInf = True"
| "dle x y = False"

text \<open>The conversion of an unsigned count to \<open>double\<close>.\<close>

definition double_of_count :: "nat \<Rightarrow> double" where
  "double_of_count n = round_to_double (real n)"

section \<open>Constants of the two samples\<close>

text \<open>
  Both programs fix four file-level constants. They are collected in a record so that
  properties can be stated for every bracket size and every pair of exposure bounds;
  \<open>sample_config\<close> holds the values of the sources. The \<open>uint32_t\<close> counts and
  the \<open>int\<close> counters of the programs are natural numbers (no counter goes below 0,
  and none comes near the width of its type for a bracket size a camera can hold); the
  exposure times (microseconds) are doubles.
\<close>

record config =
  c_countOfImagesToGrab :: nat
  c_imagesPerHDR :: nat
  c_lowExposureTime :: double
  c_highExposureTime :: double

text \<open>
  Bounds as the sample means them: the bracket size is a value of \<open>uint32_t\<close>, the two
  bounds are finite doubles, and the low bound is below the high bound.
\<close>

definition proper_bounds :: "config \<Rightarrow> bool" where
  "proper_bounds cfg =
     (c_imagesPerHDR cfg < 2 ^ 32 \<and>
      finite_double (c_lowExposureTime cfg) \<and> finite_double (c_highExposureTime cfg) \<and>
      dless (c_lowExposureTime cfg) (c_highExposureTime cfg))"

definition sample_config :: config where
  "sample_config =
     \<lparr>c_countOfImagesToGrab = 1000, c_imagesPerHDR = 3,
      c_lowExposureTime = Finite 100, c_highExposureTime = Finite 100000\<rparr>"

text \<open>
  \<^verbatim>\<open>double c_exposureTimeIncrement = (c_highExposureTime - c_lowExposureTime) / c_imagesPerHDR;\<close>
  The subtraction and the division are double operations, the count is converted to
  \<open>double\<close> for the division; with a bracket size of 0 the quotient is an infinity or
  not a number.
\<close>

definition c_exposureTimeIncrement :: "config \<Rightarrow> double" where
  "c_exposureTimeIncrement cfg =
     ddiv (dsub (c_highExposureTime cfg) (c_lowExposureTime cfg))
       (double_of_count (c_imagesPerHDR cfg))"

section \<open>Images, exceptions and the library collaborators\<close>

datatype pixel_type =
    PixelType_Undefined
  | PixelType_Mono8
  | PixelType_BayerRG8
  | PixelType_RGB8packed
  | PixelType_BGR8packed

record pylon_image =
  pixelType :: pixel_type
  width :: nat
  height :: nat
  buffer :: "8 word list"

text \<open>A default-constructed or released \<open>CPylonImage\<close>.\<close>

definition empty_image :: pylon_image where
  "empty_image = \<lparr>pixelType = PixelType_Undefined, width = 0, height = 0, buffer = []\<rparr>"

datatype mat_type = CV_8UC1 | CV_8UC3

record cv_mat =
  rows :: nat
  cols :: nat
  mtype :: mat_type
  mat_data :: "8 word list"

text \<open>
  The exceptions that can cross the programs: \<open>TimeoutException\<close> and
  \<open>RuntimeException\<close> derive from \<open>GenICam::GenericException\<close>, which \<open>main\<close>
  catches; an exception of the fusion library (\<open>cv::Exception\<close>) does not.
\<close>

datatype exn =
    TimeoutException
  | RuntimeException string
  | CvException string

fun is_GenericException :: "exn \<Rightarrow> bool" where
  "is_GenericException TimeoutException = True"
| "is_GenericException (RuntimeException d) = True"
| "is_GenericException (CvException d) = False"

fun GetDescription :: "exn \<Rightarrow> string" where
  "GetDescription TimeoutException = ''Grab timed out.''"
| "GetDescription (RuntimeException d) = d"
| "GetDescription (CvException d) = d"

text \<open>
  The code the samples call but do not contain is a parameter of the model:
  \<^item> \<open>convertPixels src dst bytes\<close>: the pixel data conversion of pylon's
    \<open>CImageFormatConverter\<close>;
  \<^item> \<open>mergeMertens\<close>: \<open>MergeMertens::process\<close> followed by
    \<open>convertTo(hdrMat, CV_8UC3, 255)\<close>, or the exception the library raises;
  \<^item> \<open>StitchToRight\<close>: the progress-bar helper of \<open>StitchImage.h\<close>, which is not
    among the sources.
\<close>

record externals =
  convertPixels :: "pixel_type \<Rightarrow> pixel_type \<Rightarrow> 8 word list \<Rightarrow> 8 word list"
  mergeMertens :: "cv_mat list \<Rightarrow> exn + cv_mat"
  StitchToRight :: "pylon_image \<Rightarrow> pylon_image \<Rightarrow> pylon_image"

section \<open>CreateHDR\<close>

text \<open>
  \<open>myConverter.Convert(convertedImage, images[i])\<close> with the output pixel format set
  to \<open>outFmt\<close>: the converter keeps the dimensions and rewrites the pixel data.
\<close>

definition Convert :: "externals \<Rightarrow> pixel_type \<Rightarrow> pylon_image \<Rightarrow> pylon_image" where
  "Convert lib outFmt src =
     \<lparr>pixelType = outFmt, width = width src, height = height src,
      buffer = convertPixels lib (pixelType src) outFmt (buffer src)\<rparr>"

text \<open>
  Step 1, one pass of the loop: convert, then wrap the converted buffer in a
  \<open>cv::Mat(height, width, CV_8UC3, buffer)\<close> and clone it.
\<close>

definition to_cv_image :: "externals \<Rightarrow> pylon_image \<Rightarrow> cv_mat" where
  "to_cv_image lib img =
     (let convertedImage = Convert lib PixelType_BGR8packed img
      in \<lparr>rows = height convertedImage, cols = width convertedImage,
          mtype = CV_8UC3, mat_data = buffer convertedImage\<rparr>)"

text \<open>Step 1, the loop \<open>for (int i = 0; i < images.size(); i++)\<close>.\<close>

primrec cv_images_of :: "externals \<Rightarrow> pylon_image list \<Rightarrow> cv_mat list" where
  "cv_images_of lib [] = []"
| "cv_images_of lib (img # imgs) = to_cv_image lib img # cv_images_of lib imgs"

text \<open>
  Step 4: \<open>hdrImage.AttachUserBuffer(hdrMat.data, ..., openCVPixelType, hdrMat.cols,
  hdrMat.rows, 0)\<close>.
\<close>

definition AttachUserBuffer :: "cv_mat \<Rightarrow> pylon_image" where
  "AttachUserBuffer hdrMat =
     \<lparr>pixelType = PixelType_BGR8packed, width = cols hdrMat, height = rows hdrMat,
      buffer = mat_data hdrMat\<rparr>"

text \<open>
  \<open>CreateHDR(images, OutputImage)\<close>: no statement of the function inspects the
  number of images, their dimensions or their pixel types. The alignment step is
  commented out in both samples. The result is the output image, or the exception
  that left the fusion library.
\<close>

definition CreateHDR :: "externals \<Rightarrow> pylon_image list \<Rightarrow> exn + pylon_image" where
  "CreateHDR lib imgs =
     (case mergeMertens lib (cv_images_of lib imgs) of
        Inl e \<Rightarrow> Inl e
      | Inr hdrMat \<Rightarrow> Inr (AttachUserBuffer hdrMat))"

section \<open>The camera\<close>

text \<open>
  The camera is a register file: a write stores the value, a read returns the value
  last written. Range checks of the driver and of the device are outside the sources
  and are not modelled. \<open>sequencerSets\<close> are the sets stored by
  \<open>SequencerSetSave\<close>, each the sequencer-controlled registers at that moment.

  Two fields stand for the device at work: \<open>pending\<close> counts the frames that were
  triggered and not yet retrieved, \<open>incoming\<close> lists the outcome of every frame the
  device is going to deliver, in order.
\<close>

datatype on_off = Off | On

datatype trigger_selector = TriggerSelector_FrameStart | TriggerSelector_FrameBurstStart

datatype trigger_source = TriggerSource_Software | TriggerSource_Line1

record sequencer_set =
  set_ExposureTime :: double
  set_SequencerSetNext :: nat
  set_SequencerPathSelector :: nat

datatype grab_result =
    GrabSucceeded pylon_image
  | GrabFailed nat string

record camera =
  modelName :: string
  sequencerWritable :: bool
  SequencerMode :: on_off
  SequencerConfigurationMode :: on_off
  SequencerSetSelector :: nat
  SequencerSetNext :: nat
  SequencerPathSelector :: nat
  sequencerSets :: "nat \<Rightarrow> sequencer_set option"
  ExposureTime :: double
  TriggerSelector :: trigger_selector
  AcquisitionBurstFrameCount :: nat
  TriggerMode :: on_off
  TriggerSource :: trigger_source
  MaxNumBuffer :: nat
  pending :: nat
  incoming :: "grab_result list"

text \<open>\<open>camera.SequencerSetSave.Execute()\<close>\<close>

definition SequencerSetSave :: "camera \<Rightarrow> camera" where
  "SequencerSetSave cam =
     cam\<lparr>sequencerSets := (sequencerSets cam)(SequencerSetSelector cam \<mapsto>
            \<lparr>set_ExposureTime = ExposureTime cam,
             set_SequencerSetNext = SequencerSetNext cam,
             set_SequencerPathSelector = SequencerPathSelector cam\<rparr>)\<rparr>"

text \<open>
  A software trigger starts one frame, or a burst of \<open>AcquisitionBurstFrameCount\<close>
  frames when the frame burst start trigger is selected.
\<close>

definition frames_per_trigger :: "camera \<Rightarrow> nat" where
  "frames_per_trigger cam =
     (case TriggerSelector cam of
        TriggerSelector_FrameStart \<Rightarrow> 1
      | TriggerSelector_FrameBurstStart \<Rightarrow> AcquisitionBurstFrameCount cam)"

section \<open>Sequencer setup of the advanced sample\<close>

text \<open>
  One pass of the loop \<open>for (int i = 0; i < c_imagesPerHDR; i++)\<close>. The unsigned
  \<open>c_imagesPerHDR - 1\<close> is evaluated only inside the loop, where the bracket size is
  at least 1, so it does not wrap round; the counter \<open>i\<close> stays below the bracket
  size.
\<close>

definition sequencer_step :: "config \<Rightarrow> nat \<Rightarrow> camera \<Rightarrow> camera" where
  "sequencer_step cfg i cam =
     (let cam1 = cam\<lparr>SequencerSetSelector := i\<rparr>;
          cam2 =
            (if i = 0 then cam1\<lparr>ExposureTime := c_lowExposureTime cfg\<rparr>
             else if i = c_imagesPerHDR cfg - 1
               then cam1\<lparr>ExposureTime := c_highExposureTime cfg\<rparr>
             else cam1\<lparr>ExposureTime :=
                    dadd (ExposureTime cam1) (c_exposureTimeIncrement cfg)\<rparr>);
          cam3 =
            (if i = c_imagesPerHDR cfg - 1 then cam2\<lparr>SequencerSetNext := 0\<rparr>
             else cam2\<lparr>SequencerSetNext := i + 1\<rparr>);
          cam4 = cam3\<lparr>SequencerPathSelector := 1\<rparr>
      in SequencerSetSave cam4)"

function sequencer_loop :: "config \<Rightarrow> nat \<Rightarrow> camera \<Rightarrow> camera" where
  "sequencer_loop cfg i cam =
     (if i < c_imagesPerHDR cfg then sequencer_loop cfg (i + 1) (sequencer_step cfg i cam)
      else cam)"
  by pat_completeness auto
termination
  by (relation "measure (\<lambda>(cfg, i, cam). c_imagesPerHDR cfg - i)") auto

declare sequencer_loop.simps [simp del]

text \<open>
  The sequencer block between the capability check and the trigger setup: sequencer
  off, configuration mode on, the loop, selector back to set 0, configuration mode off,
  sequencer on.
\<close>

definition sequencer_setup :: "config \<Rightarrow> camera \<Rightarrow> camera" where
  "sequencer_setup cfg cam =
     (let cam1 = cam\<lparr>SequencerMode := Off\<rparr>;
          cam2 = cam1\<lparr>SequencerConfigurationMode := On\<rparr>;
          cam3 = sequencer_loop cfg 0 cam2;
          cam4 = cam3\<lparr>SequencerSetSelector := 0\<rparr>;
          cam5 = cam4\<lparr>SequencerConfigurationMode := Off\<rparr>
      in cam5\<lparr>SequencerMode := On\<rparr>)"

text \<open>
  The part of \<open>main\<close> the specification calls \<open>SequenceProgram.build\<close>: the
  capability check, whose failure ends the program, and the sequencer block. No
  statement of it holds the bracket size against a minimum or compares the two
  exposure bounds.
\<close>

datatype build_error = SequencerNotSupported

definition build :: "config \<Rightarrow> camera \<Rightarrow> build_error + camera" where
  "build cfg cam =
     (if \<not> sequencerWritable cam then Inl SequencerNotSupported
      else Inr (sequencer_setup cfg cam))"

text \<open>The steps a camera holds for a bracket of \<open>n\<close> frames, in index order.\<close>

definition steps_of :: "camera \<Rightarrow> nat \<Rightarrow> sequencer_set option list" where
  "steps_of cam n = map (sequencerSets cam) [0..<n]"

text \<open>The trigger block of the advanced sample.\<close>

definition advanced_trigger_setup :: "config \<Rightarrow> camera \<Rightarrow> camera" where
  "advanced_trigger_setup cfg cam =
     (let cam1 = cam\<lparr>TriggerSelector := TriggerSelector_FrameBurstStart\<rparr>;
          cam2 = cam1\<lparr>AcquisitionBurstFrameCount := c_imagesPerHDR cfg\<rparr>;
          cam3 = cam2\<lparr>TriggerMode := On\<rparr>
      in cam3\<lparr>TriggerSource := TriggerSource_Software\<rparr>)"

section \<open>Program state and observable events\<close>

text \<open>
  What a run does to the outside is recorded as a list of events, in program order:
  console lines, images shown, software triggers sent, and the hand-over of a bracket
  to the fusion code (\<open>Fusion\<close>, recorded when the HDR processing block starts on
  the stored images).
\<close>

datatype event =
    Console string
  | ImageRetrieved nat
  | GrabError nat string
  | Trigger
  | Fusion "pylon_image list"
  | DisplayImage nat pylon_image
  | ExceptionOccurred string

record state =
  camera :: camera
  imageCounter :: nat
  images :: "pylon_image list"
  stitchedImage :: pylon_image
  out :: "event list"

text \<open>
  \<open>camera.StartGrabbing(c_countOfImagesToGrab)\<close>: the grab engine starts with no
  frame outstanding. The count is the number of results after which the engine stops
  by itself; it is handed to the grab loop below.
\<close>

definition StartGrabbing :: "camera \<Rightarrow> camera" where
  "StartGrabbing cam = cam\<lparr>pending := 0\<rparr>"

text \<open>\<open>camera.TriggerSoftware.Execute()\<close>\<close>

definition TriggerSoftware_Execute :: "state \<Rightarrow> state" where
  "TriggerSoftware_Execute st =
     st\<lparr>camera := (camera st)\<lparr>pending := pending (camera st) + frames_per_trigger (camera st)\<rparr>,
        out := out st @ [Trigger]\<rparr>"

text \<open>
  \<open>camera.RetrieveResult(5000, ptrGrabResult, TimeoutHandling_ThrowException)\<close>:
  the next grab result, or the timeout exception when no triggered frame is
  outstanding or the device delivers nothing more.
\<close>

definition RetrieveResult :: "state \<Rightarrow> (exn \<times> state) + (grab_result \<times> state)" where
  "RetrieveResult st =
     (if pending (camera st) = 0 then Inl (TimeoutException, st)
      else case incoming (camera st) of
             [] \<Rightarrow> Inl (TimeoutException, st)
           | r # rs \<Rightarrow>
               Inr (r, st\<lparr>camera := (camera st)\<lparr>pending := pending (camera st) - 1,
                                                  incoming := rs\<rparr>\<rparr>))"

section \<open>The grab loop of the advanced sample\<close>

text \<open>The branch on \<open>ptrGrabResult->GrabSucceeded()\<close>.\<close>

definition advanced_ingest :: "config \<Rightarrow> externals \<Rightarrow> grab_result \<Rightarrow> state \<Rightarrow> state" where
  "advanced_ingest cfg lib r st =
     (case r of
        GrabSucceeded img \<Rightarrow>
          (let n = imageCounter st + 1;
               stitched = StitchToRight lib (stitchedImage st) img
           in st\<lparr>imageCounter := n,
                 images := images st @ [img],
                 stitchedImage := (if n = c_imagesPerHDR cfg then empty_image else stitched),
                 out := out st @ [ImageRetrieved n, DisplayImage 1 stitched]\<rparr>)
      | GrabFailed code description \<Rightarrow>
          st\<lparr>out := out st @ [GrabError code description]\<rparr>)"

text \<open>The block under \<open>if (images.size() == c_imagesPerHDR)\<close>.\<close>

definition advanced_hdr :: "config \<Rightarrow> externals \<Rightarrow> state \<Rightarrow> (exn \<times> state) + state" where
  "advanced_hdr cfg lib st =
     (if length (images st) = c_imagesPerHDR cfg then
        (let st1 = st\<lparr>out := out st @
                       [Console ''Received all images. Sending trigger for next batch...'']\<rparr>;
             st2 = TriggerSoftware_Execute st1;
             st3 = st2\<lparr>out := out st2 @
                       [Console ''Generating HDR Image for current batch...'',
                        Fusion (images st2)]\<rparr>
         in case CreateHDR lib (images st3) of
              Inl e \<Rightarrow> Inl (e, st3)
            | Inr hdrImage \<Rightarrow>
                Inr (st3\<lparr>out := out st3 @
                            [DisplayImage 0 hdrImage, Console ''HDR Image Generated!''],
                         imageCounter := 0,
                         images := []\<rparr>))
      else Inr st)"

definition advanced_body ::
  "config \<Rightarrow> externals \<Rightarrow> grab_result \<Rightarrow> state \<Rightarrow> (exn \<times> state) + state" where
  "advanced_body cfg lib r st = advanced_hdr cfg lib (advanced_ingest cfg lib r st)"

section \<open>The grab loop of the simple sample\<close>

text \<open>
  The branch on \<open>ptrGrabResult->GrabSucceeded()\<close>. Both the exposure writes and the
  software triggers stand inside the success branch.
\<close>

definition simple_retrigger :: "config \<Rightarrow> state \<Rightarrow> state" where
  "simple_retrigger cfg st =
     (let st1 =
            (if imageCounter st \<noteq> c_imagesPerHDR cfg then
               TriggerSoftware_Execute
                 (st\<lparr>camera := (camera st)\<lparr>ExposureTime :=
                         dadd (ExposureTime (camera st)) (c_exposureTimeIncrement cfg)\<rparr>\<rparr>)
             else st)
      in if imageCounter st1 = c_imagesPerHDR cfg then
           TriggerSoftware_Execute
             (st1\<lparr>camera := (camera st1)\<lparr>ExposureTime := c_lowExposureTime cfg\<rparr>\<rparr>)
         else st1)"

definition simple_ingest :: "config \<Rightarrow> externals \<Rightarrow> grab_result \<Rightarrow> state \<Rightarrow> state" where
  "simple_ingest cfg lib r st =
     (case r of
        GrabSucceeded img \<Rightarrow>
          (let st1 = simple_retrigger cfg (st\<lparr>imageCounter := imageCounter st + 1\<rparr>);
               stitched = StitchToRight lib (stitchedImage st1) img
           in st1\<lparr>images := images st1 @ [img],
                  stitchedImage :=
                    (if imageCounter st1 = c_imagesPerHDR cfg then empty_image else stitched),
                  out := out st1 @ [DisplayImage 1 stitched]\<rparr>)
      | GrabFailed code description \<Rightarrow>
          st\<lparr>out := out st @ [GrabError code description]\<rparr>)"

text \<open>
  The block under \<open>if (images.size() == c_imagesPerHDR)\<close>: steps 1 to 4 are the
  statements of \<open>CreateHDR\<close>, written in line.
\<close>

definition simple_hdr :: "config \<Rightarrow> externals \<Rightarrow> state \<Rightarrow> (exn \<times> state) + state" where
  "simple_hdr cfg lib st =
     (if length (images st) = c_imagesPerHDR cfg then
        (let st1 = st\<lparr>out := out st @ [Fusion (images st)]\<rparr>
         in case CreateHDR lib (images st1) of
              Inl e \<Rightarrow> Inl (e, st1)
            | Inr hdrImage \<Rightarrow>
                Inr (st1\<lparr>out := out st1 @ [DisplayImage 0 hdrImage],
                         imageCounter := 0,
                         images := []\<rparr>))
      else Inr st)"

definition simple_body ::
  "config \<Rightarrow> externals \<Rightarrow> grab_result \<Rightarrow> state \<Rightarrow> (exn \<times> state) + state" where
  "simple_body cfg lib r st = simple_hdr cfg lib (simple_ingest cfg lib r st)"

section \<open>Running the loops\<close>

text \<open>
  \<open>while (camera.IsGrabbing())\<close>: the grab engine stops by itself once the number of
  results given to \<open>StartGrabbing\<close> has been retrieved (a failed result counts as
  one), so the loop is a recursion on the number of results still to come. An exception
  ends it at once, with the state reached. The local \<open>image\<close>, a copy of the grab
  result on its way into \<open>images\<close>, is not kept in the state.
\<close>

fun grab_loop ::
  "(grab_result \<Rightarrow> state \<Rightarrow> (exn \<times> state) + state) \<Rightarrow> nat \<Rightarrow> state \<Rightarrow> (exn \<times> state) + state"
where
  "grab_loop body 0 st = Inr st"
| "grab_loop body (Suc k) st =
     (case RetrieveResult st of
        Inl e \<Rightarrow> Inl e
      | Inr (r, st1) \<Rightarrow>
          (case body r st1 of
             Inl e \<Rightarrow> Inl e
           | Inr st2 \<Rightarrow> grab_loop body k st2))"

text \<open>
  The loop body applied to a given sequence of grab results, one after the other:
  what the frame assembling code does with a stream, whatever the device behind it.
\<close>

fun ingest_all ::
  "(grab_result \<Rightarrow> state \<Rightarrow> (exn \<times> state) + state) \<Rightarrow> grab_result list \<Rightarrow> state \<Rightarrow> (exn \<times> state) + state"
where
  "ingest_all body [] st = Inr st"
| "ingest_all body (r # rs) st =
     (case body r st of
        Inl e \<Rightarrow> Inl e
      | Inr st1 \<Rightarrow> ingest_all body rs st1)"

text \<open>The state a run ended in, normally or by an exception.\<close>

fun final :: "(exn \<times> state) + state \<Rightarrow> state" where
  "final (Inl (e, st)) = st"
| "final (Inr st) = st"

text \<open>The brackets handed to the fusion code, and the frames of a stream that succeeded.\<close>

fun fusions :: "event list \<Rightarrow> pylon_image list list" where
  "fusions [] = []"
| "fusions (Fusion b # es) = b # fusions es"
| "fusions (e # es) = fusions es"

fun successes :: "grab_result list \<Rightarrow> pylon_image list" where
  "successes [] = []"
| "successes (GrabSucceeded img # rs) = img # successes rs"
| "successes (GrabFailed code description # rs) = successes rs"

text \<open>The state in which both samples enter their grab loop.\<close>

definition initial_state :: "camera \<Rightarrow> event list \<Rightarrow> state" where
  "initial_state cam es =
     \<lparr>camera = cam, imageCounter = 0, images = [], stitchedImage = empty_image, out = es\<rparr>"

section \<open>The two main functions\<close>

text \<open>
  How \<open>main\<close> ends: it returns an exit code, an exception nobody catches ends the
  process through \<open>std::terminate\<close>, or the closing loop
  \<^verbatim>\<open>while (std::cin.get() != '\n');\<close> never sees a newline (at the end of the
  input \<open>get\<close> keeps returning end-of-file) and the process never exits.
\<close>

datatype outcome = Exit int | Terminate | Hang

fun press_enter :: "string \<Rightarrow> bool" where
  "press_enter [] = False"
| "press_enter (c # cs) = (if c = CHR 0x0A then True else press_enter cs)"

text \<open>
  The \<open>try\<close> block ends by the \<open>return 1\<close> inside it, by an exception, or by
  reaching its end; each time with the events produced so far.
\<close>

datatype try_result =
    Returned int "event list"
  | Thrown exn "event list"
  | Completed "event list"

text \<open>
  \<open>CTlFactory::GetInstance().CreateFirstDevice(info)\<close>: the camera with the serial
  number asked for, when there is one.
\<close>

definition CreateFirstDevice :: "camera option \<Rightarrow> exn + camera" where
  "CreateFirstDevice dev =
     (case dev of
        None \<Rightarrow> Inl (RuntimeException ''No device is available or no device matches the given device info.'')
      | Some cam \<Rightarrow> Inr cam)"

text \<open>The two lines that close \<open>main\<close>: the prompt, the wait for Enter, the return.\<close>

definition wait_and_exit :: "int \<Rightarrow> event list \<Rightarrow> string \<Rightarrow> event list \<times> outcome" where
  "wait_and_exit exitCode es stdin =
     (es @ [Console ''Press Enter to exit.''],
      if press_enter stdin then Exit exitCode else Hang)"

text \<open>The \<open>catch (GenICam::GenericException &e)\<close> clause and what follows it.\<close>

definition after_try :: "try_result \<Rightarrow> string \<Rightarrow> event list \<times> outcome" where
  "after_try r stdin =
     (case r of
        Returned exitCode es \<Rightarrow> (es, Exit exitCode)
      | Thrown e es \<Rightarrow>
          (if is_GenericException e then
             wait_and_exit 1
               (es @ [Console ''An exception occurred.'', ExceptionOccurred (GetDescription e)])
               stdin
           else (es, Terminate))
      | Completed es \<Rightarrow> wait_and_exit 0 es stdin)"

definition loop_result :: "(exn \<times> state) + state \<Rightarrow> try_result" where
  "loop_result r = (case r of Inl (e, st) \<Rightarrow> Thrown e (out st) | Inr st \<Rightarrow> Completed (out st))"

text \<open>
  The advanced sample from the trigger setup to the kick-off trigger, sent right after
  the grab engine is started: the state in which the grab loop is entered.
\<close>

definition advanced_start :: "config \<Rightarrow> camera \<Rightarrow> event list \<Rightarrow> state" where
  "advanced_start cfg cam es =
     TriggerSoftware_Execute
       (initial_state
          (StartGrabbing ((advanced_trigger_setup cfg cam)\<lparr>MaxNumBuffer := 10\<rparr>)) es)"

definition advanced_try :: "config \<Rightarrow> externals \<Rightarrow> camera option \<Rightarrow> try_result" where
  "advanced_try cfg lib dev =
     (case CreateFirstDevice dev of
        Inl e \<Rightarrow> Thrown e []
      | Inr cam \<Rightarrow>
          (let es = [Console (''Using device '' @ modelName cam)]
           in case build cfg cam of
                Inl err \<Rightarrow>
                  Returned 1
                    (es @ [Console ''This camera does not support the Sequencer feature. Exiting...''])
              | Inr cam1 \<Rightarrow>
                  loop_result
                    (grab_loop (advanced_body cfg lib) (c_countOfImagesToGrab cfg)
                       (advanced_start cfg cam1 es))))"

definition advanced_main ::
  "config \<Rightarrow> externals \<Rightarrow> camera option \<Rightarrow> string \<Rightarrow> event list \<times> outcome" where
  "advanced_main cfg lib dev stdin = after_try (advanced_try cfg lib dev) stdin"

text \<open>The simple sample: trigger setup, first exposure time, buffer count.\<close>

definition simple_setup :: "config \<Rightarrow> camera \<Rightarrow> camera" where
  "simple_setup cfg cam =
     (let cam1 = cam\<lparr>TriggerMode := On\<rparr>;
          cam2 = cam1\<lparr>TriggerSource := TriggerSource_Software\<rparr>;
          cam3 = cam2\<lparr>ExposureTime := c_lowExposureTime cfg\<rparr>
      in cam3\<lparr>MaxNumBuffer := 10\<rparr>)"

definition simple_start :: "config \<Rightarrow> camera \<Rightarrow> event list \<Rightarrow> state" where
  "simple_start cfg cam es =
     TriggerSoftware_Execute (initial_state (StartGrabbing (simple_setup cfg cam)) es)"

definition simple_try :: "config \<Rightarrow> externals \<Rightarrow> camera option \<Rightarrow> try_result" where
  "simple_try cfg lib dev =
     (case CreateFirstDevice dev of
        Inl e \<Rightarrow> Thrown e []
      | Inr cam \<Rightarrow>
          loop_result
            (grab_loop (simple_body cfg lib) (c_countOfImagesToGrab cfg)
               (simple_start cfg cam [Console (''Using device '' @ modelName cam)])))"

definition simple_main ::
  "config \<Rightarrow> externals \<Rightarrow> camera option \<Rightarrow> string \<Rightarrow> event list \<times> outcome" where
  "simple_main cfg lib dev stdin = after_try (simple_try cfg lib dev) stdin"

section \<open>Concrete inputs for evaluation\<close>

text \<open>
  Stand-ins for the libraries, used only where a statement is evaluated on a concrete
  run. The converter triples a grey value and leaves other data as it is; the fusion
  makes the checks of OpenCV's \<open>checkImageDimensions\<close> (a non-empty list whose
  members agree in size and type) and returns the per-byte maximum of the exposures;
  stitching puts the buffers one after the other.
\<close>

definition test_convertPixels :: "pixel_type \<Rightarrow> pixel_type \<Rightarrow> 8 word list \<Rightarrow> 8 word list" where
  "test_convertPixels src dst bytes =
     (if src = PixelType_Mono8 \<and> dst = PixelType_BGR8packed
      then concat (map (\<lambda>b. [b, b, b]) bytes) else bytes)"

definition same_shape :: "cv_mat \<Rightarrow> cv_mat \<Rightarrow> bool" where
  "same_shape a b = (rows a = rows b \<and> cols a = cols b \<and> mtype a = mtype b)"

definition test_mergeMertens :: "cv_mat list \<Rightarrow> exn + cv_mat" where
  "test_mergeMertens ms =
     (case ms of
        [] \<Rightarrow> Inl (CvException ''images is empty'')
      | m # rest \<Rightarrow>
          if list_all (same_shape m) rest
          then Inr (foldl (\<lambda>a b. a\<lparr>mat_data := map2 max (mat_data a) (mat_data b)\<rparr>) m rest)
          else Inl (CvException ''image dimensions differ''))"

definition test_StitchToRight :: "pylon_image \<Rightarrow> pylon_image \<Rightarrow> pylon_image" where
  "test_StitchToRight a b =
     \<lparr>pixelType = pixelType b, width = width a + width b,
      height = max (height a) (height b), buffer = buffer a @ buffer b\<rparr>"

definition test_externals :: externals where
  "test_externals =
     \<lparr>convertPixels = test_convertPixels, mergeMertens = test_mergeMertens,
      StitchToRight = test_StitchToRight\<rparr>"

text \<open>Frames of one pixel, and a camera as it is after power-on.\<close>

definition frame :: "pixel_type \<Rightarrow> 8 word list \<Rightarrow> pylon_image" where
  "frame t bytes = \<lparr>pixelType = t, width = 1, height = 1, buffer = bytes\<rparr>"

abbreviation frame10 :: pylon_image where
  "frame10 \<equiv> frame PixelType_Mono8 [10]"

abbreviation frame20 :: pylon_image where
  "frame20 \<equiv> frame PixelType_Mono8 [20]"

abbreviation frame30 :: pylon_image where
  "frame30 \<equiv> frame PixelType_Mono8 [30]"

abbreviation frame40 :: pylon_image where
  "frame40 \<equiv> frame PixelType_Mono8 [40]"

definition test_camera :: "grab_result list \<Rightarrow> camera" where
  "test_camera rs =
     \<lparr>modelName = ''acA1920-40uc'', sequencerWritable = True,
      SequencerMode = Off, SequencerConfigurationMode = Off,
      SequencerSetSelector = 0, SequencerSetNext = 0, SequencerPathSelector = 0,
      sequencerSets = Map.empty, ExposureTime = Finite 5000,
      TriggerSelector = TriggerSelector_FrameStart, AcquisitionBurstFrameCount = 1,
      TriggerMode = Off, TriggerSource = TriggerSource_Line1, MaxNumBuffer = 10,
      pending = 0, incoming = rs\<rparr>"

section \<open>Descriptions used in the proofs\<close>

text \<open>
  What the sequencer loop stores in set \<open>j\<close>, written without the camera: set 0 takes
  the low bound; a later set takes the high bound when it is the last of the bracket,
  and otherwise the exposure of the set before it plus the increment, added as the
  program adds it. The successor wraps round at the last set, and the path selector
  is 1.
\<close>

fun ramp_exposure :: "config \<Rightarrow> nat \<Rightarrow> double" where
  "ramp_exposure cfg 0 = c_lowExposureTime cfg"
| "ramp_exposure cfg (Suc j) =
     (if Suc j = c_imagesPerHDR cfg - 1 then c_highExposureTime cfg
      else dadd (ramp_exposure cfg j) (c_exposureTimeIncrement cfg))"

text \<open>
  The numbers binary64 can hold, by their form: a significand of at most 53 bits times
  a power of two not below the least exponent, of magnitude below \<open>2 ^ 1024\<close>.
\<close>

definition on_grid :: "real \<Rightarrow> bool" where
  "on_grid a =
     (\<exists>k e. a = of_int k * power_int 2 (e - 52) \<and> \<bar>k\<bar> \<le> 2 ^ 53 \<and> - 1022 \<le> e \<and>
            \<bar>a\<bar> < double_limit)"

text \<open>What a sum of such a number and a non-negative increment can be.\<close>

definition grid_or_inf :: "double \<Rightarrow> bool" where
  "grid_or_inf d = (case d of Finite y \<Rightarrow> on_grid y | PosInf \<Rightarrow> True | _ \<Rightarrow> False)"

definition nonneg_or_inf :: "double \<Rightarrow> bool" where
  "nonneg_or_inf d = (case d of Finite y \<Rightarrow> 0 \<le> y | PosInf \<Rightarrow> True | _ \<Rightarrow> False)"

definition ramp_step :: "config \<Rightarrow> nat \<Rightarrow> sequencer_set" where
  "ramp_step cfg j =
     \<lparr>set_ExposureTime = ramp_exposure cfg j,
      set_SequencerSetNext = (if j = c_imagesPerHDR cfg - 1 then 0 else j + 1),
      set_SequencerPathSelector = 1\<rparr>"

section \<open>Reading a run\<close>

text \<open>The console lines a stream's failed frames leave, in order.\<close>

fun grab_errors :: "grab_result list \<Rightarrow> event list" where
  "grab_errors [] = []"
| "grab_errors (GrabSucceeded img # rs) = grab_errors rs"
| "grab_errors (GrabFailed code description # rs) = GrabError code description # grab_errors rs"

text \<open>
  The events that matter for the trigger discipline: a software trigger, a retrieval
  (which leaves \<open>ImageRetrieved\<close> or \<open>GrabError\<close> in the advanced sample) and the
  hand-over of a bracket to the fusion code.
\<close>

fun is_key :: "event \<Rightarrow> bool" where
  "is_key Trigger = True"
| "is_key (ImageRetrieved k) = True"
| "is_key (GrabError code description) = True"
| "is_key (Fusion b) = True"
| "is_key e = False"

definition key_events :: "event list \<Rightarrow> event list" where
  "key_events es = filter is_key es"

text \<open>
  The burst discipline after the kick-off trigger, read off the key events: \<open>c\<close>
  counts the frames retrieved with success since the last hand-over and stays below
  the bracket size \<open>n\<close> whenever a retrieval follows and when the run ends; the
  frame that makes it \<open>n\<close> is followed at once by a trigger and the hand-over of a
  bracket of \<open>n\<close> frames, and a trigger stands nowhere else.
\<close>

fun burst_pattern :: "nat \<Rightarrow> nat \<Rightarrow> event list \<Rightarrow> bool" where
  "burst_pattern n c [] = (c < n)"
| "burst_pattern n c (ImageRetrieved k # es) = (c < n \<and> burst_pattern n (Suc c) es)"
| "burst_pattern n c (GrabError code description # es) = (c < n \<and> burst_pattern n c es)"
| "burst_pattern n c (Trigger # Fusion b # es) = (c = n \<and> length b = n \<and> burst_pattern n 0 es)"
| "burst_pattern n c (e # es) = False"

text \<open>A whole run: the kick-off trigger comes first, before any retrieval.\<close>

fun burst_run :: "nat \<Rightarrow> event list \<Rightarrow> bool" where
  "burst_run n (Trigger # es) = burst_pattern n 0 es"
| "burst_run n es = False"

text \<open>
  A run reaches the acquisition when the camera is found and, in the advanced sample,
  its sequencer can be written.
\<close>

definition acquires :: "camera option \<Rightarrow> bool" where
  "acquires dev = (case dev of None \<Rightarrow> False | Some cam \<Rightarrow> sequencerWritable cam)"

text \<open>
  What the loop bodies of the two samples have in common, as far as the bracket is
  concerned, for a bracket that is not yet full: a failed frame only leaves its console
  line; a successful frame that does not fill the bracket is appended; the frame that
  fills it makes the body hand the bracket over, and the bracket is emptied unless the
  fusion raised.
\<close>

definition assembles :: "nat \<Rightarrow> (grab_result \<Rightarrow> state \<Rightarrow> (exn \<times> state) + state) \<Rightarrow> bool" where
  "assembles n body =
     (\<forall>st. length (images st) < n \<longrightarrow>
        (\<forall>c d. body (GrabFailed c d) st = Inr (st\<lparr>out := out st @ [GrabError c d]\<rparr>)) \<and>
        (\<forall>x. length (images st) + 1 < n \<longrightarrow>
           (\<exists>s'. body (GrabSucceeded x) st = Inr s' \<and> images s' = images st @ [x] \<and>
                 fusions (out s') = fusions (out st))) \<and>
        (\<forall>x. length (images st) + 1 = n \<longrightarrow>
           fusions (out (final (body (GrabSucceeded x) st))) = fusions (out st) @ [images st @ [x]] \<and>
           (case body (GrabSucceeded x) st of
              Inr s' \<Rightarrow> images s' = []
            | Inl (e, s') \<Rightarrow> images s' = images st @ [x])))"

text \<open>
  The simple sample between two passes of its loop: at most one triggered frame is
  outstanding, a trigger starts a single frame, and the bracket is not full.
\<close>

definition single_shot :: "nat \<Rightarrow> state \<Rightarrow> bool" where
  "single_shot n st =
     (pending (camera st) \<le> 1 \<and> TriggerSelector (camera st) = TriggerSelector_FrameStart \<and>
      length (images st) < n)"

chapter \<open>Properties\<close>

section \<open>Evaluating double operations\<close>

lemma halvings_numeral:
  "halvings (numeral k) x = (if 2 \<le> x then Suc (halvings (pred_numeral k) (x / 2)) else 0)"
  by (simp add: numeral_eq_Suc)

lemma doublings_numeral:
  "doublings (numeral k) x = (if x < 1 then Suc (doublings (pred_numeral k) (2 * x)) else 0)"
  by (simp add: numeral_eq_Suc)

lemmas double_defs =
  round_to_double_def double_limit_def binade_def round_half_even_def dsub_def
  double_of_count_def finite_double_def
  c_exposureTimeIncrement_def halvings_numeral doublings_numeral Let_def

section \<open>Rounding to a double\<close>

text \<open>
  Rounding to an integer never crosses an integer, and the exponent search brackets the
  magnitude between two powers of two as long as it stays inside its range.
\<close>

lemma rhe_ge: "of_int m \<le> t \<Longrightarrow> m \<le> round_half_even t"
proof -
  assume "of_int m \<le> t"
  then have "m \<le> \<lfloor>t\<rfloor>" by (simp add: le_floor_iff)
  then show ?thesis by (auto simp: round_half_even_def Let_def)
qed

lemma rhe_le: "t \<le> of_int m \<Longrightarrow> round_half_even t \<le> m"
proof (cases "t = of_int m")
  case True
  then show ?thesis by (simp add: round_half_even_def Let_def)
next
  case False
  assume "t \<le> of_int m"
  then have "t < of_int m" using False by simp
  then have "\<lfloor>t\<rfloor> < m" by (simp add: floor_less_iff)
  then show ?thesis by (auto simp: round_half_even_def Let_def)
qed

lemma halvings_le: "halvings n x \<le> n"
  by (induction n arbitrary: x) auto

lemma halvings_lower: "1 \<le> x \<Longrightarrow> 2 ^ halvings n x \<le> x"
proof (induction n arbitrary: x)
  case 0
  then show ?case by simp
next
  case (Suc n)
  show ?case
  proof (cases "2 \<le> x")
    case True
    then have "2 ^ halvings n (x / 2) \<le> x / 2" using Suc.IH[of "x / 2"] by simp
    then show ?thesis using True by simp
  next
    case False
    then show ?thesis using Suc.prems by simp
  qed
qed

lemma halvings_upper: "halvings n x < n \<Longrightarrow> x < 2 ^ (halvings n x + 1)"
proof (induction n arbitrary: x)
  case 0
  then show ?case by simp
next
  case (Suc n)
  show ?case
  proof (cases "2 \<le> x")
    case True
    then have "halvings n (x / 2) < n" using Suc.prems by simp
    then have "x / 2 < 2 ^ (halvings n (x / 2) + 1)" by (rule Suc.IH)
    then show ?thesis using True by simp
  next
    case False
    then show ?thesis by simp
  qed
qed

lemma doublings_le: "doublings n x \<le> n"
  by (induction n arbitrary: x) auto

lemma doublings_zero: "doublings n 0 = n"
  by (induction n) simp_all

lemma doublings_lower: "0 < x \<Longrightarrow> doublings n x < n \<Longrightarrow> 1 \<le> x * 2 ^ doublings n x"
proof (induction n arbitrary: x)
  case 0
  then show ?case by simp
next
  case (Suc n)
  show ?case
  proof (cases "x < 1")
    case True
    then have "doublings n (2 * x) < n" using Suc.prems by simp
    then have "1 \<le> (2 * x) * 2 ^ doublings n (2 * x)" using Suc.IH[of "2 * x"] Suc.prems by simp
    then show ?thesis using True by (simp add: mult.assoc mult.left_commute)
  next
    case False
    then show ?thesis by simp
  qed
qed

lemma doublings_upper: "x < 1 \<Longrightarrow> 0 < n \<Longrightarrow> x * 2 ^ doublings n x < 2"
proof (induction n arbitrary: x)
  case 0
  then show ?case by simp
next
  case (Suc n)
  show ?case
  proof (cases "2 * x < 1")
    case True
    show ?thesis
    proof (cases n)
      case 0
      then show ?thesis using Suc.prems True by simp
    next
      case (Suc m)
      then have "(2 * x) * 2 ^ doublings n (2 * x) < 2" using Suc.IH[of "2 * x"] True by simp
      then show ?thesis using Suc.prems by (simp add: mult.assoc mult.left_commute)
    qed
  next
    case False
    then have "doublings n (2 * x) = 0" by (cases n) simp_all
    then show ?thesis using Suc.prems False by simp
  qed
qed

lemma powi_neg: "power_int (2::real) (- int d) = 1 / 2 ^ d"
  by (simp add: power_int_minus field_simps)

lemma powi_one_minus: "power_int (2::real) (1 - int d) = 2 / 2 ^ d"
  by (simp add: power_int_diff)

lemma binade_ge: "- 1022 \<le> binade x"
  using doublings_le[of 1022 "\<bar>x\<bar>"] by (simp add: binade_def)

lemma binade_le: "binade x \<le> 1024"
  using halvings_le[of 1024 "\<bar>x\<bar>"] by (simp add: binade_def)

lemma binade_lower: "- 1022 < binade x \<Longrightarrow> power_int 2 (binade x) \<le> \<bar>x\<bar>"
proof (cases "1 \<le> \<bar>x\<bar>")
  case True
  then show ?thesis using halvings_lower[of "\<bar>x\<bar>" 1024] by (simp add: binade_def power_int_def)
next
  case False
  assume a: "- 1022 < binade x"
  let ?d = "doublings 1022 \<bar>x\<bar>"
  have b: "binade x = - int ?d" using False by (simp add: binade_def)
  then have d: "?d < 1022" using a by simp
  have "x \<noteq> 0"
  proof
    assume "x = 0"
    then show False using d doublings_zero[of 1022] by simp
  qed
  then have "0 < \<bar>x\<bar>" by simp
  from doublings_lower[OF this d] have "1 \<le> \<bar>x\<bar> * 2 ^ ?d" .
  then have "1 / 2 ^ ?d \<le> \<bar>x\<bar>" by (simp add: field_simps)
  then show ?thesis unfolding b powi_neg .
qed

lemma binade_upper: "binade x < 1024 \<Longrightarrow> \<bar>x\<bar> < power_int 2 (binade x + 1)"
proof (cases "1 \<le> \<bar>x\<bar>")
  case True
  assume "binade x < 1024"
  then have "halvings 1024 \<bar>x\<bar> < 1024" using True by (simp add: binade_def)
  from halvings_upper[OF this] have "\<bar>x\<bar> < 2 ^ (halvings 1024 \<bar>x\<bar> + 1)" .
  moreover have "binade x + 1 = int (halvings 1024 \<bar>x\<bar> + 1)" using True by (simp add: binade_def)
  ultimately show ?thesis by (simp only: power_int_of_nat)
next
  case False
  let ?d = "doublings 1022 \<bar>x\<bar>"
  have b: "binade x = - int ?d" using False by (simp add: binade_def)
  have "\<bar>x\<bar> * 2 ^ ?d < 2" using doublings_upper[of "\<bar>x\<bar>" 1022] False by simp
  then have "\<bar>x\<bar> < 2 / 2 ^ ?d" by (simp add: field_simps)
  also have "2 / 2 ^ ?d = power_int (2::real) (binade x + 1)"
    unfolding b using powi_one_minus[of ?d] by simp
  finally show ?thesis .
qed

lemma powi_split: "power_int (2::real) e = 2 ^ 52 * power_int 2 (e - 52)"
proof -
  have "e = 52 + (e - 52)" by simp
  then have "power_int (2::real) e = power_int 2 (52 + (e - 52))" by (rule arg_cong)
  also have "\<dots> = power_int 2 52 * power_int 2 (e - 52)" by (subst power_int_add) simp_all
  finally show ?thesis by simp
qed

lemma powi_split1: "power_int (2::real) (e + 1) = 2 ^ 53 * power_int 2 (e - 52)"
proof -
  have "e + 1 = 53 + (e - 52)" by simp
  then have "power_int (2::real) (e + 1) = power_int 2 (53 + (e - 52))" by (rule arg_cong)
  also have "\<dots> = power_int 2 53 * power_int 2 (e - 52)" by (subst power_int_add) simp_all
  finally show ?thesis by simp
qed

lemma powi_mono: "a \<le> b \<Longrightarrow> power_int (2::real) a \<le> power_int 2 b"
  by (rule power_int_increasing) simp_all

lemma round_result:
  "round_to_double x =
     (if double_limit \<le> \<bar>real_of_int (round_half_even (x / power_int 2 (binade x - 52))) *
          power_int 2 (binade x - 52)\<bar>
      then (if 0 < x then PosInf else NegInf)
      else Finite (of_int (round_half_even (x / power_int 2 (binade x - 52))) *
                  power_int 2 (binade x - 52)))"
  by (simp add: round_to_double_def Let_def)

lemma rhe_abs_le:
  assumes "\<bar>t\<bar> \<le> of_int m"
  shows "\<bar>round_half_even t\<bar> \<le> m"
proof -
  have "t \<le> of_int m" "of_int (- m) \<le> t" using assms by simp_all
  from rhe_le[OF this(1)] rhe_ge[OF this(2)] show ?thesis by simp
qed

lemma rhe_abs_ge:
  assumes "of_int m \<le> \<bar>t\<bar>"
  shows "m \<le> \<bar>round_half_even t\<bar>"
proof (cases "0 \<le> t")
  case True
  then have "of_int m \<le> t" using assms by simp
  from rhe_ge[OF this] show ?thesis by simp
next
  case False
  then have "t \<le> of_int (- m)" using assms by simp
  from rhe_le[OF this] show ?thesis by simp
qed

lemma scaled_abs_less:
  fixes x u c :: real
  assumes "0 < u" "\<bar>x\<bar> < c * u"
  shows "\<bar>x / u\<bar> \<le> c"
proof -
  have "\<bar>x / u\<bar> = \<bar>x\<bar> / u" using assms(1) by simp
  also have "\<dots> < c" using assms by (simp add: pos_divide_less_eq)
  finally show ?thesis by simp
qed

lemma scaled_abs_ge:
  fixes x u c :: real
  assumes "0 < u" "c * u \<le> \<bar>x\<bar>"
  shows "c \<le> \<bar>x / u\<bar>"
proof -
  have "c \<le> \<bar>x\<bar> / u" using assms by (simp add: pos_le_divide_eq)
  also have "\<dots> = \<bar>x / u\<bar>" using assms(1) by simp
  finally show ?thesis .
qed

text \<open>
  A finite result of rounding has the form of a double. Rounding a number that is not
  below such a value does not give less: the value, or the power of two between the
  two, is a multiple of the unit in the last place that lies between them.
\<close>

lemma round_on_grid:
  assumes "round_to_double x = Finite y"
  shows "on_grid y"
proof -
  define u :: real where "u = power_int 2 (binade x - 52)"
  define k where "k = round_half_even (x / u)"
  have u: "0 < u" by (simp add: u_def)
  have r: "round_to_double x =
     (if double_limit \<le> \<bar>real_of_int k * u\<bar> then (if 0 < x then PosInf else NegInf)
      else Finite (of_int k * u))"
    unfolding k_def u_def by (rule round_result)
  have y: "y = of_int k * u" and fin: "\<bar>y\<bar> < double_limit"
    using assms unfolding r by (simp_all split: if_splits)
  have k: "\<bar>k\<bar> \<le> 2 ^ 53"
  proof (cases "binade x < 1024")
    case True
    from binade_upper[OF True] have "\<bar>x\<bar> < 2 ^ 53 * u" unfolding u_def by (simp only: powi_split1[of "binade x"])
    from scaled_abs_less[OF u this] have "\<bar>x / u\<bar> \<le> of_int (2 ^ 53)" by simp
    from rhe_abs_le[OF this] show ?thesis unfolding k_def .
  next
    case False
    then have e: "binade x = 1024" using binade_le[of x] by simp
    then have "power_int 2 (binade x) \<le> \<bar>x\<bar>" using binade_lower[of x] by simp
    then have "2 ^ 52 * u \<le> \<bar>x\<bar>" unfolding u_def by (simp only: powi_split[of "binade x"])
    from scaled_abs_ge[OF u this] have "of_int (2 ^ 52) \<le> \<bar>x / u\<bar>" by simp
    from rhe_abs_ge[OF this] have "2 ^ 52 \<le> \<bar>k\<bar>" unfolding k_def .
    then have "real_of_int (2 ^ 52) \<le> real_of_int \<bar>k\<bar>" by (simp only: of_int_le_iff)
    then have "2 ^ 52 \<le> \<bar>real_of_int k\<bar>" by simp
    then have "2 ^ 52 * u \<le> \<bar>real_of_int k\<bar> * u" using u by simp
    also have "\<dots> = \<bar>y\<bar>" unfolding y using u by (simp add: abs_mult)
    finally have "2 ^ 52 * u \<le> \<bar>y\<bar>" .
    then have "power_int 2 (binade x) \<le> \<bar>y\<bar>" unfolding u_def by (simp only: powi_split[of "binade x"])
    then have "double_limit \<le> \<bar>y\<bar>" unfolding e by (simp add: double_limit_def)
    then show ?thesis using fin by simp
  qed
  have "y = of_int k * power_int 2 (binade x - 52) \<and> \<bar>k\<bar> \<le> 2 ^ 53 \<and> - 1022 \<le> binade x \<and>
        \<bar>y\<bar> < double_limit"
    using y k fin binade_ge[of x] unfolding u_def by simp
  then show ?thesis unfolding on_grid_def by blast
qed

lemma round_above:
  assumes "on_grid a" "a \<le> x"
  shows "round_to_double x = PosInf \<or> (\<exists>y. round_to_double x = Finite y \<and> a \<le> y)"
proof -
  define u :: real where "u = power_int 2 (binade x - 52)"
  define k where "k = round_half_even (x / u)"
  have u: "0 < u" by (simp add: u_def)
  have r: "round_to_double x =
     (if double_limit \<le> \<bar>real_of_int k * u\<bar> then (if 0 < x then PosInf else NegInf)
      else Finite (of_int k * u))"
    unfolding k_def u_def by (rule round_result)
  from assms(1) obtain ka ea where
    a: "a = of_int ka * power_int 2 (ea - 52)" and ka: "\<bar>ka\<bar> \<le> 2 ^ 53"
    and ea: "- 1022 \<le> ea" and fin: "\<bar>a\<bar> < double_limit"
    unfolding on_grid_def by blast
  have "\<exists>m::int. a / u \<le> of_int m \<and> of_int m \<le> x / u"
  proof (cases "binade x \<le> ea")
    case True
    have "ea - 52 = (ea - binade x) + (binade x - 52)" by simp
    then have "power_int (2::real) (ea - 52) = power_int 2 ((ea - binade x) + (binade x - 52))"
      by (rule arg_cong)
    also have "\<dots> = power_int 2 (ea - binade x) * u"
      unfolding u_def by (subst power_int_add) simp_all
    also have "power_int (2::real) (ea - binade x) = 2 ^ nat (ea - binade x)"
      using True by (simp add: power_int_def)
    finally have "a = of_int ka * 2 ^ nat (ea - binade x) * u" unfolding a by simp
    then have "a / u = of_int (ka * 2 ^ nat (ea - binade x))" using u by simp
    moreover have "a / u \<le> x / u" using assms(2) u by (simp add: divide_right_mono)
    ultimately have "a / u \<le> of_int (ka * 2 ^ nat (ea - binade x)) \<and>
        of_int (ka * 2 ^ nat (ea - binade x)) \<le> x / u" by simp
    then show ?thesis by (rule exI)
  next
    case False
    then have lt: "ea + 1 \<le> binade x" by simp
    then have "- 1022 < binade x" using ea by simp
    from binade_lower[OF this] have lo: "2 ^ 52 * u \<le> \<bar>x\<bar>"
      unfolding u_def by (simp only: powi_split[of "binade x"])
    have "real_of_int \<bar>ka\<bar> \<le> real_of_int (2 ^ 53)" using ka by (simp only: of_int_le_iff)
    then have "\<bar>real_of_int ka\<bar> \<le> 2 ^ 53" by simp
    then have "\<bar>real_of_int ka\<bar> * power_int 2 (ea - 52) \<le> 2 ^ 53 * power_int 2 (ea - 52)"
      by (rule mult_right_mono) simp
    then have "\<bar>a\<bar> \<le> 2 ^ 53 * power_int 2 (ea - 52)"
      unfolding a by (simp add: abs_mult)
    also have "\<dots> = power_int 2 (ea + 1)" by (simp only: powi_split1[of ea])
    also have "\<dots> \<le> power_int 2 (binade x)" using lt by (rule powi_mono)
    also have "\<dots> = 2 ^ 52 * u" unfolding u_def by (simp only: powi_split[of "binade x"])
    finally have hi: "\<bar>a\<bar> \<le> 2 ^ 52 * u" .
    show ?thesis
    proof (cases "0 \<le> x")
      case True
      have "a \<le> 2 ^ 52 * u" using hi by simp
      then have "a / u \<le> 2 ^ 52" using u by (simp add: pos_divide_le_eq)
      then have 1: "a / u \<le> of_int (2 ^ 52)" by simp
      have "2 ^ 52 * u \<le> x" using lo True by simp
      then have "2 ^ 52 \<le> x / u" using u by (simp add: pos_le_divide_eq)
      then have 2: "of_int (2 ^ 52) \<le> x / u" by simp
      from 1 2 have "a / u \<le> of_int (2 ^ 52) \<and> of_int (2 ^ 52) \<le> x / u" by (rule conjI)
      then show ?thesis by (rule exI)
    next
      case False
      then have nx: "2 ^ 52 * u \<le> - x" using lo by simp
      have na: "- a \<le> 2 ^ 52 * u" using hi by simp
      from nx na have "x \<le> a" by simp
      then have eq: "a = x" using assms(2) by simp
      have "- x = 2 ^ 52 * u" using nx na eq by simp
      then have "x = - (2 ^ 52) * u" by simp
      then have "x / u = - (2 ^ 52)" using u by simp
      then have "x / u = of_int (- (2 ^ 52))" by simp
      then have "a / u \<le> of_int (- (2 ^ 52)) \<and> of_int (- (2 ^ 52)) \<le> x / u"
        unfolding eq by simp
      then show ?thesis by (rule exI)
    qed
  qed
  then obtain m :: int where m: "a / u \<le> of_int m" "of_int m \<le> x / u" by blast
  have "m \<le> k" unfolding k_def by (rule rhe_ge[OF m(2)])
  then have "real_of_int m \<le> of_int k" by simp
  then have "a / u \<le> of_int k" using m(1) by simp
  then have ay: "a \<le> of_int k * u" using u by (simp add: pos_divide_le_eq)
  show ?thesis
  proof (cases "double_limit \<le> \<bar>real_of_int k * u\<bar>")
    case False
    then show ?thesis using ay unfolding r by simp
  next
    case True
    show ?thesis
    proof (cases "0 < x")
      case True
      then show ?thesis using \<open>double_limit \<le> \<bar>real_of_int k * u\<bar>\<close> unfolding r by simp
    next
      case False
      then have "x / u \<le> of_int 0" using u by (simp add: divide_le_0_iff)
      from rhe_le[OF this] have "real_of_int k \<le> 0" unfolding k_def by simp
      then have "real_of_int k * u \<le> 0" using u by (simp add: mult_le_0_iff)
      then have "real_of_int k * u \<le> - double_limit" using True by simp
      then have "a \<le> - double_limit" using ay by simp
      then show ?thesis using fin by simp
    qed
  qed
qed

text \<open>
  The increment of proper bounds is not negative and is a number or \<open>+infinity\<close>, so
  adding it never gives less, and never gives something that is not a number.
\<close>

lemma on_grid_0: "on_grid 0"
proof -
  have "(0::real) = of_int 0 * power_int 2 (0 - 52) \<and> \<bar>0::int\<bar> \<le> 2 ^ 53 \<and> - 1022 \<le> (0::int) \<and>
        \<bar>0::real\<bar> < double_limit"
    by (simp add: double_limit_def)
  then show ?thesis unfolding on_grid_def by blast
qed

lemma on_grid_2: "on_grid 2"
proof -
  have "(2::real) = of_int (2 ^ 52) * power_int 2 (1 - 52) \<and> \<bar>2 ^ 52 :: int\<bar> \<le> 2 ^ 53 \<and>
        - 1022 \<le> (1::int) \<and> \<bar>2::real\<bar> < double_limit"
    by (simp add: double_limit_def power_int_minus)
  then show ?thesis unfolding on_grid_def by blast
qed

lemma finite_double_on_grid: "finite_double (Finite a) \<Longrightarrow> on_grid a"
  by (simp add: finite_double_def round_on_grid)

lemma round_nonneg: "0 \<le> x \<Longrightarrow> nonneg_or_inf (round_to_double x)"
  using round_above[OF on_grid_0, of x] by (auto simp: nonneg_or_inf_def)

lemma round_grid_or_inf:
  assumes "on_grid a" "a \<le> x"
  shows "grid_or_inf (round_to_double x) \<and> dle (Finite a) (round_to_double x)"
proof -
  from round_above[OF assms] show ?thesis
  proof
    assume "round_to_double x = PosInf"
    then show ?thesis by (simp add: grid_or_inf_def)
  next
    assume "\<exists>y. round_to_double x = Finite y \<and> a \<le> y"
    then obtain y where y: "round_to_double x = Finite y" "a \<le> y" by blast
    then show ?thesis using round_on_grid[OF y(1)] by (simp add: grid_or_inf_def)
  qed
qed

lemma round_small_finite:
  assumes "0 \<le> x" "x < 2 ^ 32"
  shows "\<exists>y. round_to_double x = Finite y"
proof -
  define u :: real where "u = power_int 2 (binade x - 52)"
  define k where "k = round_half_even (x / u)"
  have u: "0 < u" by (simp add: u_def)
  have r: "round_to_double x =
     (if double_limit \<le> \<bar>real_of_int k * u\<bar> then (if 0 < x then PosInf else NegInf)
      else Finite (of_int k * u))"
    unfolding k_def u_def by (rule round_result)
  have e: "binade x < 32"
  proof (rule ccontr)
    assume "\<not> binade x < 32"
    then have b: "32 \<le> binade x" by simp
    then have "power_int 2 (binade x) \<le> \<bar>x\<bar>" using binade_lower[of x] by simp
    moreover have "power_int (2::real) 32 \<le> power_int 2 (binade x)" using b by (rule powi_mono)
    ultimately have "2 ^ 32 \<le> \<bar>x\<bar>" by simp
    then show False using assms by simp
  qed
  then have "binade x < 1024" by simp
  from binade_upper[OF this] have "\<bar>x\<bar> < 2 ^ 53 * u"
    unfolding u_def by (simp only: powi_split1[of "binade x"])
  from scaled_abs_less[OF u this] have "\<bar>x / u\<bar> \<le> of_int (2 ^ 53)" by simp
  from rhe_abs_le[OF this] have "\<bar>k\<bar> \<le> 2 ^ 53" unfolding k_def .
  then have "real_of_int \<bar>k\<bar> \<le> real_of_int (2 ^ 53)" by (simp only: of_int_le_iff)
  then have "\<bar>real_of_int k\<bar> \<le> 2 ^ 53" by simp
  then have "\<bar>real_of_int k\<bar> * u \<le> 2 ^ 53 * u" using u by simp
  also have "\<dots> = power_int 2 (binade x + 1)"
    unfolding u_def by (simp only: powi_split1[of "binade x"])
  also have "\<dots> \<le> power_int 2 32" using e by (intro powi_mono) simp
  also have "\<dots> < double_limit" by (simp add: double_limit_def)
  finally have "\<bar>real_of_int k * u\<bar> < double_limit" using u by (simp add: abs_mult)
  then show ?thesis unfolding r by simp
qed

lemma count_double:
  assumes "2 \<le> n" "n < 2 ^ 32"
  shows "\<exists>c. double_of_count n = Finite c \<and> 2 \<le> c"
proof -
  have "real n < 2 ^ 32" using assms(2) by (metis of_nat_less_iff of_nat_numeral of_nat_power)
  from round_small_finite[OF _ this] obtain c where c: "round_to_double (real n) = Finite c"
    by auto
  have "2 \<le> real n" using assms(1) by simp
  from round_above[OF on_grid_2 this] have "2 \<le> c" using c by simp
  then show ?thesis using c by (simp add: double_of_count_def)
qed

lemma increment_nonneg:
  assumes "proper_bounds cfg" "2 \<le> c_imagesPerHDR cfg"
  shows "nonneg_or_inf (c_exposureTimeIncrement cfg)"
proof -
  from assms(1) obtain l h where
    l: "c_lowExposureTime cfg = Finite l" and h: "c_highExposureTime cfg = Finite h"
    by (cases "c_lowExposureTime cfg"; cases "c_highExposureTime cfg")
       (simp_all add: proper_bounds_def finite_double_def)
  have lh: "l < h" using assms(1) l h by (simp add: proper_bounds_def)
  have n: "c_imagesPerHDR cfg < 2 ^ 32" using assms(1) by (simp add: proper_bounds_def)
  from count_double[OF assms(2) n] obtain c where
    c: "double_of_count (c_imagesPerHDR cfg) = Finite c" "2 \<le> c" by blast
  have d: "nonneg_or_inf (round_to_double (h - l))" using lh by (intro round_nonneg) simp
  have inc: "c_exposureTimeIncrement cfg = ddiv (round_to_double (h - l)) (Finite c)"
    by (simp add: c_exposureTimeIncrement_def l h c dsub_def)
  show ?thesis
  proof (cases "round_to_double (h - l)")
    case (Finite d')
    then have "0 \<le> d'" using d by (simp add: nonneg_or_inf_def)
    then have "0 \<le> d' / c" using c(2) by simp
    from round_nonneg[OF this] show ?thesis using Finite c(2) by (simp add: inc)
  next
    case PosInf
    then show ?thesis using c(2) by (simp add: inc nonneg_or_inf_def)
  next
    case NegInf
    then show ?thesis using d by (simp add: nonneg_or_inf_def)
  next
    case NaN
    then show ?thesis using d by (simp add: nonneg_or_inf_def)
  qed
qed

lemma sum_up:
  assumes "grid_or_inf p" "nonneg_or_inf q"
  shows "grid_or_inf (dadd p q) \<and> dle p (dadd p q)"
proof (cases p)
  case (Finite a)
  then have a: "on_grid a" using assms(1) by (simp add: grid_or_inf_def)
  show ?thesis
  proof (cases q)
    case (Finite b)
    then have "a \<le> a + b" using assms(2) by (simp add: nonneg_or_inf_def)
    from round_grid_or_inf[OF a this] show ?thesis using Finite \<open>p = Finite a\<close> by simp
  next
    case PosInf
    then show ?thesis using \<open>p = Finite a\<close> by (simp add: grid_or_inf_def)
  next
    case NegInf
    then show ?thesis using assms(2) by (simp add: nonneg_or_inf_def)
  next
    case NaN
    then show ?thesis using assms(2) by (simp add: nonneg_or_inf_def)
  qed
next
  case PosInf
  then show ?thesis using assms(2) by (cases q) (simp_all add: grid_or_inf_def nonneg_or_inf_def)
next
  case NegInf
  then show ?thesis using assms(1) by (simp add: grid_or_inf_def)
next
  case NaN
  then show ?thesis using assms(1) by (simp add: grid_or_inf_def)
qed

lemma ramp_nondecreasing:
  assumes "proper_bounds cfg" "2 \<le> c_imagesPerHDR cfg" "j < c_imagesPerHDR cfg - 1"
  shows "grid_or_inf (ramp_exposure cfg j) \<and>
         (0 < j \<longrightarrow> dle (ramp_exposure cfg (j - 1)) (ramp_exposure cfg j))"
  using assms(3)
proof (induction j)
  case 0
  from assms(1) obtain l where l: "c_lowExposureTime cfg = Finite l" "finite_double (Finite l)"
    by (cases "c_lowExposureTime cfg") (simp_all add: proper_bounds_def finite_double_def)
  then show ?case using finite_double_on_grid[OF l(2)] by (simp add: grid_or_inf_def)
next
  case (Suc j)
  then have g: "grid_or_inf (ramp_exposure cfg j)" by simp
  have r: "ramp_exposure cfg (Suc j) = dadd (ramp_exposure cfg j) (c_exposureTimeIncrement cfg)"
    using Suc.prems by simp
  from sum_up[OF g increment_nonneg[OF assms(1,2)]] show ?case unfolding r by simp
qed

section \<open>The sequence program\<close>

lemma step_effect:
  assumes "i = 0 \<or> ExposureTime cam = ramp_exposure cfg (i - 1)" "i < c_imagesPerHDR cfg"
  shows "sequencerSets (sequencer_step cfg i cam) = (sequencerSets cam)(i \<mapsto> ramp_step cfg i)"
    and "ExposureTime (sequencer_step cfg i cam) = ramp_exposure cfg i"
proof -
  show "sequencerSets (sequencer_step cfg i cam) = (sequencerSets cam)(i \<mapsto> ramp_step cfg i)"
  proof (cases i)
    case 0
    then show ?thesis
      by (simp add: sequencer_step_def SequencerSetSave_def Let_def ramp_step_def)
  next
    case (Suc k)
    then show ?thesis using assms
      by (simp add: sequencer_step_def SequencerSetSave_def Let_def ramp_step_def)
  qed
  show "ExposureTime (sequencer_step cfg i cam) = ramp_exposure cfg i"
  proof (cases i)
    case 0
    then show ?thesis
      by (simp add: sequencer_step_def SequencerSetSave_def Let_def)
  next
    case (Suc k)
    then show ?thesis using assms
      by (simp add: sequencer_step_def SequencerSetSave_def Let_def)
  qed
qed

lemma loop_sets:
  assumes "i = 0 \<or> ExposureTime cam = ramp_exposure cfg (i - 1)"
  shows "sequencerSets (sequencer_loop cfg i cam) j =
     (if i \<le> j \<and> j < c_imagesPerHDR cfg then Some (ramp_step cfg j) else sequencerSets cam j)"
  using assms
proof (induction cfg i cam rule: sequencer_loop.induct)
  case (1 cfg i cam)
  show ?case
  proof (cases "i < c_imagesPerHDR cfg")
    case True
    have ih: "sequencerSets (sequencer_loop cfg (i + 1) (sequencer_step cfg i cam)) j =
      (if i + 1 \<le> j \<and> j < c_imagesPerHDR cfg then Some (ramp_step cfg j)
       else sequencerSets (sequencer_step cfg i cam) j)"
      using "1.IH"[OF True] step_effect(2)[OF "1.prems" True] by simp
    show ?thesis
      using True ih step_effect(1)[OF "1.prems" True]
      by (subst sequencer_loop.simps) (auto)
  next
    case False
    then show ?thesis by (subst sequencer_loop.simps) auto
  qed
qed

lemma setup_sets:
  "sequencerSets (sequencer_setup cfg cam) j =
     (if j < c_imagesPerHDR cfg then Some (ramp_step cfg j) else sequencerSets cam j)"
  by (simp add: sequencer_setup_def Let_def loop_sets)

lemma steps_of_setup:
  "steps_of (sequencer_setup cfg cam) (c_imagesPerHDR cfg) =
     map Some (map (ramp_step cfg) [0..<c_imagesPerHDR cfg])"
  by (simp add: steps_of_def setup_sets)

text \<open>
  Claim C2, as stated, fails on the strict increase, which holds for exact quotients
  and sums but not for the doubles of the program. With a bracket of three frames, the
  low bound 100 and the next double above 100 as the high bound, the increment is a
  third of the distance between the two, the sum \<open>100 + increment\<close> rounds back to
  100, and sets 0 and 1 hold the same exposure. With a bracket of seven frames, the low
  bound 1 and the high bound four doubles above it, every addition rounds up to the
  next double, so that set 5 lies five doubles above 1 and the last set, written
  directly, lies below it.
\<close>

theorem build_exposure_ramp_counterexample:
  "2 \<le> c_imagesPerHDR \<lparr>c_countOfImagesToGrab = 1000, c_imagesPerHDR = 3,
        c_lowExposureTime = Finite 100, c_highExposureTime = Finite (100 + 1 / 2 ^ 46)\<rparr> \<and>
   finite_double (Finite 100) \<and> finite_double (Finite (100 + 1 / 2 ^ 46)) \<and>
   dless (Finite 100) (Finite (100 + 1 / 2 ^ 46)) \<and>
   map (map_option set_ExposureTime)
     (steps_of (sequencer_setup \<lparr>c_countOfImagesToGrab = 1000, c_imagesPerHDR = 3,
        c_lowExposureTime = Finite 100, c_highExposureTime = Finite (100 + 1 / 2 ^ 46)\<rparr>
        (test_camera [])) 3) =
     [Some (Finite 100), Some (Finite 100), Some (Finite (100 + 1 / 2 ^ 46))] \<and>
   \<not> dless (Finite 100) (Finite 100) \<and>
   finite_double (Finite 1) \<and> finite_double (Finite (1 + 1 / 2 ^ 50)) \<and>
   dless (Finite 1) (Finite (1 + 1 / 2 ^ 50)) \<and>
   map (map_option set_ExposureTime)
     (steps_of (sequencer_setup \<lparr>c_countOfImagesToGrab = 1000, c_imagesPerHDR = 7,
        c_lowExposureTime = Finite 1, c_highExposureTime = Finite (1 + 1 / 2 ^ 50)\<rparr>
        (test_camera [])) 7) =
     [Some (Finite 1), Some (Finite (1 + 1 / 2 ^ 52)), Some (Finite (1 + 2 / 2 ^ 52)),
      Some (Finite (1 + 3 / 2 ^ 52)), Some (Finite (1 + 4 / 2 ^ 52)),
      Some (Finite (1 + 5 / 2 ^ 52)), Some (Finite (1 + 4 / 2 ^ 52))] \<and>
   dless (Finite (1 + 4 / 2 ^ 52)) (Finite (1 + 5 / 2 ^ 52))"
  by (simp add: test_camera_def sequencer_setup_def sequencer_loop.simps
        sequencer_step_def SequencerSetSave_def steps_of_def double_defs upt_rec)

text \<open>
  Claim C2, amended. For every bracket size \<open>N \<ge> 2\<close> and every pair of bounds, the
  sequencer block (which \<open>main\<close> runs once the capability check has passed), run on
  any camera, stores exactly the sets \<open>0 .. N-1\<close> and leaves every other set as it
  was; set 0 holds the low bound, set \<open>N-1\<close> the high bound (written directly), every
  set strictly between them holds the double sum of its predecessor's exposure and the
  increment, itself the double quotient of the double difference \<open>high - low\<close> by
  \<open>N\<close>, and the successor of set \<open>i\<close> is \<open>(i + 1) mod N\<close>. When the bounds are
  finite doubles with the low bound below the high bound, set 0 is below set \<open>N-1\<close>
  and no set before the last is below its predecessor; the exposures need not increase
  strictly, and the last set can be below the one before it.
\<close>

theorem build_exposure_ramp:
  assumes "2 \<le> c_imagesPerHDR cfg"
  shows "\<exists>steps.
           steps_of (sequencer_setup cfg cam) (c_imagesPerHDR cfg) = map Some steps \<and>
           length steps = c_imagesPerHDR cfg \<and>
           (\<forall>i. c_imagesPerHDR cfg \<le> i \<longrightarrow>
                sequencerSets (sequencer_setup cfg cam) i = sequencerSets cam i) \<and>
           set_ExposureTime (steps ! 0) = c_lowExposureTime cfg \<and>
           set_ExposureTime (steps ! (c_imagesPerHDR cfg - 1)) = c_highExposureTime cfg \<and>
           (\<forall>i. 0 < i \<and> i < c_imagesPerHDR cfg - 1 \<longrightarrow>
                set_ExposureTime (steps ! i) =
                  dadd (set_ExposureTime (steps ! (i - 1)))
                    (ddiv (dsub (c_highExposureTime cfg) (c_lowExposureTime cfg))
                       (double_of_count (c_imagesPerHDR cfg)))) \<and>
           (\<forall>i. i < c_imagesPerHDR cfg \<longrightarrow>
                set_SequencerSetNext (steps ! i) = (i + 1) mod c_imagesPerHDR cfg) \<and>
           (proper_bounds cfg \<longrightarrow>
              dless (set_ExposureTime (steps ! 0))
                (set_ExposureTime (steps ! (c_imagesPerHDR cfg - 1))) \<and>
              (\<forall>i. 0 < i \<and> i < c_imagesPerHDR cfg - 1 \<longrightarrow>
                   dle (set_ExposureTime (steps ! (i - 1))) (set_ExposureTime (steps ! i))))"
proof -
  let ?n = "c_imagesPerHDR cfg"
  let ?steps = "map (ramp_step cfg) [0..<?n]"
  have nth: "\<And>i. i < ?n \<Longrightarrow> ?steps ! i = ramp_step cfg i" by simp
  have s: "steps_of (sequencer_setup cfg cam) ?n = map Some ?steps"
    by (rule steps_of_setup)
  have l: "length ?steps = ?n" by simp
  have u: "\<forall>i. ?n \<le> i \<longrightarrow> sequencerSets (sequencer_setup cfg cam) i = sequencerSets cam i"
    by (simp add: setup_sets)
  have e0: "set_ExposureTime (?steps ! 0) = c_lowExposureTime cfg"
    using assms(1) by (simp add: nth ramp_step_def)
  have eN: "set_ExposureTime (?steps ! (?n - 1)) = c_highExposureTime cfg"
  proof -
    from assms obtain m where m: "?n - 1 = Suc m" by (cases "?n - 1") auto
    have "?n - 1 < ?n" using assms by simp
    then show ?thesis using m by (simp add: nth ramp_step_def)
  qed
  have mid: "\<forall>i. 0 < i \<and> i < ?n - 1 \<longrightarrow>
      set_ExposureTime (?steps ! i) = dadd (set_ExposureTime (?steps ! (i - 1)))
        (ddiv (dsub (c_highExposureTime cfg) (c_lowExposureTime cfg)) (double_of_count ?n))"
  proof (intro allI impI)
    fix i assume i: "0 < i \<and> i < ?n - 1"
    then have lt: "i < ?n" "i - 1 < ?n" by arith+
    from i obtain k where k: "i = Suc k" by (cases i) auto
    have "ramp_exposure cfg i = dadd (ramp_exposure cfg (i - 1)) (c_exposureTimeIncrement cfg)"
      using i k by simp
    then show "set_ExposureTime (?steps ! i) = dadd (set_ExposureTime (?steps ! (i - 1)))
        (ddiv (dsub (c_highExposureTime cfg) (c_lowExposureTime cfg)) (double_of_count ?n))"
      by (simp only: nth[OF lt(1)] nth[OF lt(2)] ramp_step_def sequencer_set.simps
            c_exposureTimeIncrement_def)
  qed
  have nxt: "\<forall>i. i < ?n \<longrightarrow> set_SequencerSetNext (?steps ! i) = (i + 1) mod ?n"
  proof (intro allI impI)
    fix i assume i: "i < ?n"
    show "set_SequencerSetNext (?steps ! i) = (i + 1) mod ?n"
    proof (cases "i = ?n - 1")
      case True
      then show ?thesis using i by (simp add: ramp_step_def)
    next
      case False
      then have "i + 1 < ?n" using i by simp
      then show ?thesis using i False by (simp add: ramp_step_def)
    qed
  qed
  have ord: "proper_bounds cfg \<longrightarrow>
      dless (set_ExposureTime (?steps ! 0)) (set_ExposureTime (?steps ! (?n - 1))) \<and>
      (\<forall>i. 0 < i \<and> i < ?n - 1 \<longrightarrow>
           dle (set_ExposureTime (?steps ! (i - 1))) (set_ExposureTime (?steps ! i)))"
  proof (intro impI conjI allI)
    assume p: "proper_bounds cfg"
    then show "dless (set_ExposureTime (?steps ! 0)) (set_ExposureTime (?steps ! (?n - 1)))"
      unfolding e0 eN by (simp add: proper_bounds_def)
    fix i assume i: "0 < i \<and> i < ?n - 1"
    then have lt: "i < ?n" "i - 1 < ?n" by arith+
    have "dle (ramp_exposure cfg (i - 1)) (ramp_exposure cfg i)"
      using ramp_nondecreasing[OF p assms, of i] i by simp
    then show "dle (set_ExposureTime (?steps ! (i - 1))) (set_ExposureTime (?steps ! i))"
      by (simp only: nth[OF lt(1)] nth[OF lt(2)] ramp_step_def sequencer_set.simps)
  qed
  show ?thesis
    by (intro exI[of _ ?steps] conjI) (fact s l u e0 eN mid nxt ord)+
qed

text \<open>
  With the constants of the sample the three sets hold 100, 33400 and 100000
  microseconds: here every operation is exact and the exposures do increase.
\<close>

theorem build_exposure_ramp_witness:
  "2 \<le> c_imagesPerHDR sample_config \<and>
   proper_bounds sample_config \<and>
   (\<exists>steps.
      steps_of (sequencer_setup sample_config (test_camera [])) 3 = map Some steps \<and>
      set_ExposureTime (steps ! 0) = Finite 100 \<and>
      set_ExposureTime (steps ! 1) = Finite 33400 \<and>
      set_ExposureTime (steps ! 2) = Finite 100000 \<and>
      dless (set_ExposureTime (steps ! 0)) (set_ExposureTime (steps ! 2)) \<and>
      dle (set_ExposureTime (steps ! 0)) (set_ExposureTime (steps ! 1)) \<and>
      dless (set_ExposureTime (steps ! 0)) (set_ExposureTime (steps ! 1)) \<and>
      dless (set_ExposureTime (steps ! 1)) (set_ExposureTime (steps ! 2)) \<and>
      set_SequencerSetNext (steps ! 0) = 1 \<and>
      set_SequencerSetNext (steps ! 1) = 2 \<and>
      set_SequencerSetNext (steps ! 2) = 0)"
proof -
  have n: "c_imagesPerHDR sample_config = 3"
    and lo: "c_lowExposureTime sample_config = Finite 100"
    and hi: "c_highExposureTime sample_config = Finite 100000"
    by (simp_all add: sample_config_def)
  have h1: "2 \<le> c_imagesPerHDR sample_config" by (simp add: n)
  have h2: "proper_bounds sample_config"
    unfolding proper_bounds_def n lo hi by (simp add: double_defs)
  from build_exposure_ramp[OF h1, of "test_camera []"] obtain steps where
    s: "steps_of (sequencer_setup sample_config (test_camera []))
          (c_imagesPerHDR sample_config) = map Some steps"
    and e0: "set_ExposureTime (steps ! 0) = c_lowExposureTime sample_config"
    and eN: "set_ExposureTime (steps ! (c_imagesPerHDR sample_config - 1)) =
               c_highExposureTime sample_config"
    and mid: "\<forall>i. 0 < i \<and> i < c_imagesPerHDR sample_config - 1 \<longrightarrow>
                set_ExposureTime (steps ! i) =
                  dadd (set_ExposureTime (steps ! (i - 1)))
                    (ddiv (dsub (c_highExposureTime sample_config)
                             (c_lowExposureTime sample_config))
                       (double_of_count (c_imagesPerHDR sample_config)))"
    and nxt: "\<forall>i. i < c_imagesPerHDR sample_config \<longrightarrow>
                set_SequencerSetNext (steps ! i) = (i + 1) mod c_imagesPerHDR sample_config"
    and ord: "proper_bounds sample_config \<longrightarrow>
                dless (set_ExposureTime (steps ! 0))
                  (set_ExposureTime (steps ! (c_imagesPerHDR sample_config - 1))) \<and>
                (\<forall>i. 0 < i \<and> i < c_imagesPerHDR sample_config - 1 \<longrightarrow>
                     dle (set_ExposureTime (steps ! (i - 1))) (set_ExposureTime (steps ! i)))"
    by blast
  have inc: "ddiv (dsub (Finite 100000) (Finite 100)) (double_of_count 3) = Finite 33300"
    by (simp add: double_defs)
  have sum: "round_to_double 33400 = Finite 33400"
    by (simp add: double_defs)
  have x0: "set_ExposureTime (steps ! 0) = Finite 100" using e0 by (simp add: lo)
  have x1: "set_ExposureTime (steps ! 1) = Finite 33400"
    using mid[rule_format, of 1] x0 by (simp add: n lo hi inc sum)
  have x2: "set_ExposureTime (steps ! 2) = Finite 100000" using eN by (simp add: n hi)
  have o1: "dless (set_ExposureTime (steps ! 0)) (set_ExposureTime (steps ! 2))"
    using ord h2 by (simp add: n)
  have o2: "dle (set_ExposureTime (steps ! 0)) (set_ExposureTime (steps ! 1))"
    using ord[rule_format, OF h2, THEN conjunct2, rule_format, of 1] by (simp add: n)
  have d: "dless (set_ExposureTime (steps ! 0)) (set_ExposureTime (steps ! 1))"
    "dless (set_ExposureTime (steps ! 1)) (set_ExposureTime (steps ! 2))"
    unfolding x0 x1 x2 by simp_all
  have "set_SequencerSetNext (steps ! 0) = 1" "set_SequencerSetNext (steps ! 1) = 2"
    "set_SequencerSetNext (steps ! 2) = 0"
    using nxt[rule_format, of 0] nxt[rule_format, of 1] nxt[rule_format, of 2]
    by (simp_all add: n)
  moreover have "steps_of (sequencer_setup sample_config (test_camera [])) 3 = map Some steps"
    using s by (simp add: n)
  ultimately show ?thesis using h1 h2 x0 x1 x2 o1 o2 d by blast
qed

text \<open>
  Claim C6, as stated, fails: with a bracket of one frame, and with a high bound below
  the low bound, the setup completes and stores its sets.
\<close>

theorem build_validation_counterexample:
  "c_imagesPerHDR \<lparr>c_countOfImagesToGrab = 1000, c_imagesPerHDR = 1,
        c_lowExposureTime = Finite 100, c_highExposureTime = Finite 100000\<rparr> < 2 \<and>
   (\<exists>cam'. build \<lparr>c_countOfImagesToGrab = 1000, c_imagesPerHDR = 1,
        c_lowExposureTime = Finite 100, c_highExposureTime = Finite 100000\<rparr>
        (test_camera []) = Inr cam' \<and>
      steps_of cam' 1 =
        [Some \<lparr>set_ExposureTime = Finite 100, set_SequencerSetNext = 0,
               set_SequencerPathSelector = 1\<rparr>]) \<and>
   dless
     (c_highExposureTime \<lparr>c_countOfImagesToGrab = 1000, c_imagesPerHDR = 3,
        c_lowExposureTime = Finite 100000, c_highExposureTime = Finite 100\<rparr>)
     (c_lowExposureTime \<lparr>c_countOfImagesToGrab = 1000, c_imagesPerHDR = 3,
        c_lowExposureTime = Finite 100000, c_highExposureTime = Finite 100\<rparr>) \<and>
   (\<exists>cam'. build \<lparr>c_countOfImagesToGrab = 1000, c_imagesPerHDR = 3,
        c_lowExposureTime = Finite 100000, c_highExposureTime = Finite 100\<rparr>
        (test_camera []) = Inr cam' \<and>
      steps_of cam' 3 =
        [Some \<lparr>set_ExposureTime = Finite 100000, set_SequencerSetNext = 1,
               set_SequencerPathSelector = 1\<rparr>,
         Some \<lparr>set_ExposureTime = Finite 66700, set_SequencerSetNext = 2,
               set_SequencerPathSelector = 1\<rparr>,
         Some \<lparr>set_ExposureTime = Finite 100, set_SequencerSetNext = 0,
               set_SequencerPathSelector = 1\<rparr>])"
  by (simp add: build_def test_camera_def sequencer_setup_def sequencer_loop.simps
        sequencer_step_def SequencerSetSave_def steps_of_def double_defs upt_rec)

text \<open>
  Claim C6, amended. The setup compares neither the bracket size with 2 nor the two
  bounds. It fails only on a camera whose sequencer cannot be written; on every other
  camera it completes for every bracket size and every pair of bounds and stores, for
  each index below the bracket size, the set the loop computes for it in double
  arithmetic: the low bound in set 0, the high bound in a last set other than set 0,
  and in every other set the double sum of the exposure before it and the increment.
\<close>

theorem build_fails_only_without_sequencer:
  "(case build cfg cam of
      Inl e \<Rightarrow> \<not> sequencerWritable cam
    | Inr cam' \<Rightarrow>
        sequencerWritable cam \<and>
        steps_of cam' (c_imagesPerHDR cfg) = map (\<lambda>j. Some (ramp_step cfg j)) [0..<c_imagesPerHDR cfg])"
  using steps_of_setup[of cfg cam] by (simp add: build_def)

section \<open>The small steps of the loop bodies\<close>

lemma fusions_append: "fusions (es @ fs) = fusions es @ fusions fs"
  by (induction es rule: fusions.induct) simp_all

lemma trigger_images: "images (TriggerSoftware_Execute st) = images st"
  and trigger_out: "out (TriggerSoftware_Execute st) = out st @ [Trigger]"
  and trigger_counter: "imageCounter (TriggerSoftware_Execute st) = imageCounter st"
  and trigger_camera: "camera (TriggerSoftware_Execute st) =
        (camera st)\<lparr>pending := pending (camera st) + frames_per_trigger (camera st)\<rparr>"
  by (simp_all add: TriggerSoftware_Execute_def)

lemma advanced_ingest_failed:
  "advanced_ingest cfg lib (GrabFailed c d) st = st\<lparr>out := out st @ [GrabError c d]\<rparr>"
  by (simp add: advanced_ingest_def)

lemma advanced_ingest_success:
  "images (advanced_ingest cfg lib (GrabSucceeded x) st) = images st @ [x]"
  "out (advanced_ingest cfg lib (GrabSucceeded x) st) =
     out st @ [ImageRetrieved (imageCounter st + 1),
               DisplayImage 1 (StitchToRight lib (stitchedImage st) x)]"
  "camera (advanced_ingest cfg lib (GrabSucceeded x) st) = camera st"
  by (simp_all add: advanced_ingest_def Let_def)

lemma advanced_hdr_skip:
  "length (images st) \<noteq> c_imagesPerHDR cfg \<Longrightarrow> advanced_hdr cfg lib st = Inr st"
  by (simp add: advanced_hdr_def)

lemma advanced_hdr_full:
  assumes "length (images st) = c_imagesPerHDR cfg"
  shows "out (final (advanced_hdr cfg lib st)) =
           out st @ [Console ''Received all images. Sending trigger for next batch...'', Trigger,
                     Console ''Generating HDR Image for current batch...'', Fusion (images st)] @
           (case CreateHDR lib (images st) of
              Inl e \<Rightarrow> []
            | Inr hdrImage \<Rightarrow> [DisplayImage 0 hdrImage, Console ''HDR Image Generated!''])"
    and "(case advanced_hdr cfg lib st of
            Inr s' \<Rightarrow> images s' = [] \<and> (\<exists>h. CreateHDR lib (images st) = Inr h)
          | Inl (e, s') \<Rightarrow> images s' = images st \<and> CreateHDR lib (images st) = Inl e)"
  using assms
  by (cases "CreateHDR lib (images st)";
      simp add: advanced_hdr_def Let_def trigger_images trigger_out)+

lemma simple_retrigger_proj:
  "images (simple_retrigger cfg st) = images st"
  "out (simple_retrigger cfg st) = out st @ [Trigger]"
  "imageCounter (simple_retrigger cfg st) = imageCounter st"
  "stitchedImage (simple_retrigger cfg st) = stitchedImage st"
  by (cases "imageCounter st = c_imagesPerHDR cfg";
      simp add: simple_retrigger_def TriggerSoftware_Execute_def Let_def)+

lemma simple_retrigger_camera:
  "camera (simple_retrigger cfg st) =
     (camera st)\<lparr>ExposureTime :=
          (if imageCounter st = c_imagesPerHDR cfg then c_lowExposureTime cfg
           else dadd (ExposureTime (camera st)) (c_exposureTimeIncrement cfg)),
        pending := pending (camera st) + frames_per_trigger (camera st)\<rparr>"
  by (cases "imageCounter st = c_imagesPerHDR cfg";
      simp add: simple_retrigger_def TriggerSoftware_Execute_def Let_def frames_per_trigger_def
        split: trigger_selector.split)

lemma simple_ingest_failed:
  "simple_ingest cfg lib (GrabFailed c d) st = st\<lparr>out := out st @ [GrabError c d]\<rparr>"
  by (simp add: simple_ingest_def)

lemma simple_ingest_success:
  "images (simple_ingest cfg lib (GrabSucceeded x) st) = images st @ [x]"
  "out (simple_ingest cfg lib (GrabSucceeded x) st) =
     out st @ [Trigger, DisplayImage 1 (StitchToRight lib (stitchedImage st) x)]"
  by (simp_all add: simple_ingest_def Let_def simple_retrigger_proj)

lemma simple_hdr_skip:
  "length (images st) \<noteq> c_imagesPerHDR cfg \<Longrightarrow> simple_hdr cfg lib st = Inr st"
  by (simp add: simple_hdr_def)

lemma simple_hdr_full:
  assumes "length (images st) = c_imagesPerHDR cfg"
  shows "out (final (simple_hdr cfg lib st)) =
           out st @ [Fusion (images st)] @
           (case CreateHDR lib (images st) of
              Inl e \<Rightarrow> []
            | Inr hdrImage \<Rightarrow> [DisplayImage 0 hdrImage])"
    and "(case simple_hdr cfg lib st of
            Inr s' \<Rightarrow> images s' = [] \<and> (\<exists>h. CreateHDR lib (images st) = Inr h)
          | Inl (e, s') \<Rightarrow> images s' = images st \<and> CreateHDR lib (images st) = Inl e)"
  using assms
  by (cases "CreateHDR lib (images st)"; simp add: simple_hdr_def Let_def)+

section \<open>Assembling brackets from a stream\<close>

lemma assemblesD_failed:
  "assembles n body \<Longrightarrow> length (images st) < n \<Longrightarrow>
   body (GrabFailed c d) st = Inr (st\<lparr>out := out st @ [GrabError c d]\<rparr>)"
  by (simp add: assembles_def)

lemma assemblesD_filling:
  "assembles n body \<Longrightarrow> length (images st) + 1 < n \<Longrightarrow>
   \<exists>s'. body (GrabSucceeded x) st = Inr s' \<and> images s' = images st @ [x] \<and>
        fusions (out s') = fusions (out st)"
  by (simp add: assembles_def)

lemma assemblesD_complete:
  "assembles n body \<Longrightarrow> length (images st) + 1 = n \<Longrightarrow>
   fusions (out (final (body (GrabSucceeded x) st))) = fusions (out st) @ [images st @ [x]] \<and>
   (case body (GrabSucceeded x) st of
      Inr s' \<Rightarrow> images s' = []
    | Inl (e, s') \<Rightarrow> images s' = images st @ [x])"
  unfolding assembles_def by (metis less_add_one)

lemma advanced_assembles: "assembles (c_imagesPerHDR cfg) (advanced_body cfg lib)"
  unfolding assembles_def
proof (intro allI impI conjI)
  fix st :: state and c d assume "length (images st) < c_imagesPerHDR cfg"
  then show "advanced_body cfg lib (GrabFailed c d) st = Inr (st\<lparr>out := out st @ [GrabError c d]\<rparr>)"
    by (simp add: advanced_body_def advanced_ingest_failed advanced_hdr_skip)
next
  fix st :: state and x assume "length (images st) + 1 < c_imagesPerHDR cfg"
  then have "length (images (advanced_ingest cfg lib (GrabSucceeded x) st)) \<noteq> c_imagesPerHDR cfg"
    by (simp add: advanced_ingest_success)
  then have "advanced_body cfg lib (GrabSucceeded x) st = Inr (advanced_ingest cfg lib (GrabSucceeded x) st)"
    by (simp add: advanced_body_def advanced_hdr_skip)
  then show "\<exists>s'. advanced_body cfg lib (GrabSucceeded x) st = Inr s' \<and>
               images s' = images st @ [x] \<and> fusions (out s') = fusions (out st)"
    by (simp add: advanced_ingest_success fusions_append)
next
  fix st :: state and x assume a: "length (images st) + 1 = c_imagesPerHDR cfg"
  let ?s = "advanced_ingest cfg lib (GrabSucceeded x) st"
  have len: "length (images ?s) = c_imagesPerHDR cfg"
    using a by (simp add: advanced_ingest_success)
  show "fusions (out (final (advanced_body cfg lib (GrabSucceeded x) st))) =
          fusions (out st) @ [images st @ [x]]"
    using advanced_hdr_full(1)[OF len, of lib]
    by (cases "CreateHDR lib (images ?s)")
       (simp_all add: advanced_body_def advanced_ingest_success fusions_append)
  show "case advanced_body cfg lib (GrabSucceeded x) st of
          Inr s' \<Rightarrow> images s' = []
        | Inl (e, s') \<Rightarrow> images s' = images st @ [x]"
    using advanced_hdr_full(2)[OF len, of lib]
    by (cases "advanced_hdr cfg lib ?s")
       (auto simp: advanced_body_def advanced_ingest_success)
qed

lemma simple_assembles: "assembles (c_imagesPerHDR cfg) (simple_body cfg lib)"
  unfolding assembles_def
proof (intro allI impI conjI)
  fix st :: state and c d assume "length (images st) < c_imagesPerHDR cfg"
  then show "simple_body cfg lib (GrabFailed c d) st = Inr (st\<lparr>out := out st @ [GrabError c d]\<rparr>)"
    by (simp add: simple_body_def simple_ingest_failed simple_hdr_skip)
next
  fix st :: state and x assume "length (images st) + 1 < c_imagesPerHDR cfg"
  then have "length (images (simple_ingest cfg lib (GrabSucceeded x) st)) \<noteq> c_imagesPerHDR cfg"
    by (simp add: simple_ingest_success)
  then have "simple_body cfg lib (GrabSucceeded x) st = Inr (simple_ingest cfg lib (GrabSucceeded x) st)"
    by (simp add: simple_body_def simple_hdr_skip)
  then show "\<exists>s'. simple_body cfg lib (GrabSucceeded x) st = Inr s' \<and>
               images s' = images st @ [x] \<and> fusions (out s') = fusions (out st)"
    by (simp add: simple_ingest_success fusions_append)
next
  fix st :: state and x assume a: "length (images st) + 1 = c_imagesPerHDR cfg"
  let ?s = "simple_ingest cfg lib (GrabSucceeded x) st"
  have len: "length (images ?s) = c_imagesPerHDR cfg"
    using a by (simp add: simple_ingest_success)
  show "fusions (out (final (simple_body cfg lib (GrabSucceeded x) st))) =
          fusions (out st) @ [images st @ [x]]"
    using simple_hdr_full(1)[OF len, of lib]
    by (cases "CreateHDR lib (images ?s)")
       (simp_all add: simple_body_def simple_ingest_success fusions_append)
  show "case simple_body cfg lib (GrabSucceeded x) st of
          Inr s' \<Rightarrow> images s' = []
        | Inl (e, s') \<Rightarrow> images s' = images st @ [x]"
    using simple_hdr_full(2)[OF len, of lib]
    by (cases "simple_hdr cfg lib ?s")
       (auto simp: simple_body_def simple_ingest_success)
qed

lemma failed_only:
  assumes "assembles n body" "length (images st) < n" "successes rs = []"
  shows "ingest_all body rs st = Inr (st\<lparr>out := out st @ grab_errors rs\<rparr>)"
  using assms(2,3)
proof (induction rs arbitrary: st)
  case Nil
  then show ?case by simp
next
  case (Cons r rs)
  show ?case
  proof (cases r)
    case (GrabSucceeded x)
    then show ?thesis using Cons.prems by simp
  next
    case (GrabFailed c d)
    let ?s = "st\<lparr>out := out st @ [GrabError c d]\<rparr>"
    have b: "body r st = Inr ?s"
      using assemblesD_failed[OF assms(1) Cons.prems(1)] GrabFailed by simp
    have "ingest_all body rs ?s = Inr (?s\<lparr>out := out ?s @ grab_errors rs\<rparr>)"
      using Cons.IH[of ?s] Cons.prems GrabFailed by simp
    then show ?thesis using b GrabFailed by simp
  qed
qed

lemma ingest_invariant:
  assumes "assembles n body" "length (images st) < n"
    and "\<forall>b \<in> set (fusions (out st)). length b = n"
  shows "case ingest_all body rs st of
           Inr s \<Rightarrow> length (images s) < n \<and> (\<forall>b \<in> set (fusions (out s)). length b = n)
         | Inl (e, s) \<Rightarrow> length (images s) = n \<and> (\<forall>b \<in> set (fusions (out s)). length b = n)"
  using assms(2,3)
proof (induction rs arbitrary: st)
  case Nil
  then show ?case by simp
next
  case (Cons r rs)
  show ?case
  proof (cases r)
    case (GrabFailed c d)
    let ?s = "st\<lparr>out := out st @ [GrabError c d]\<rparr>"
    have b: "body r st = Inr ?s"
      using assemblesD_failed[OF assms(1) Cons.prems(1)] GrabFailed by simp
    show ?thesis using Cons.IH[of ?s] Cons.prems b by (simp add: fusions_append)
  next
    case (GrabSucceeded x)
    show ?thesis
    proof (cases "length (images st) + 1 < n")
      case True
      from assemblesD_filling[OF assms(1) True, of x] obtain s' where
        s': "body (GrabSucceeded x) st = Inr s'" "images s' = images st @ [x]"
            "fusions (out s') = fusions (out st)" by blast
      show ?thesis using Cons.IH[of s'] Cons.prems s' True GrabSucceeded by simp
    next
      case False
      then have eq: "length (images st) + 1 = n" using Cons.prems(1) by simp
      note c = assemblesD_complete[OF assms(1) eq, of x]
      show ?thesis
      proof (cases "body (GrabSucceeded x) st")
        case (Inl p)
        obtain e s' where p: "p = (e, s')" by (cases p)
        show ?thesis using c Inl p Cons.prems eq GrabSucceeded by auto
      next
        case (Inr s')
        have "length (images s') < n" using c Inr eq by simp
        moreover have "\<forall>b \<in> set (fusions (out s')). length b = n"
          using c Inr Cons.prems(2) eq by auto
        ultimately show ?thesis using Cons.IH[of s'] Inr GrabSucceeded by simp
      qed
    qed
  qed
qed

lemma completion:
  assumes "assembles n body" "length (images st) < n"
    and "length (images st) + length (successes rs) = n"
  shows "fusions (out (final (ingest_all body rs st))) = fusions (out st) @ [images st @ successes rs]"
  using assms(2,3)
proof (induction rs arbitrary: st)
  case Nil
  then show ?case by simp
next
  case (Cons r rs)
  show ?case
  proof (cases r)
    case (GrabFailed c d)
    let ?s = "st\<lparr>out := out st @ [GrabError c d]\<rparr>"
    have b: "body r st = Inr ?s"
      using assemblesD_failed[OF assms(1) Cons.prems(1)] GrabFailed by simp
    show ?thesis using Cons.IH[of ?s] Cons.prems b GrabFailed by (simp add: fusions_append)
  next
    case (GrabSucceeded x)
    show ?thesis
    proof (cases "length (images st) + 1 < n")
      case True
      from assemblesD_filling[OF assms(1) True, of x] obtain s' where
        s': "body (GrabSucceeded x) st = Inr s'" "images s' = images st @ [x]"
            "fusions (out s') = fusions (out st)" by blast
      show ?thesis using Cons.IH[of s'] Cons.prems s' True GrabSucceeded by simp
    next
      case False
      then have eq: "length (images st) + 1 = n" using Cons.prems(1) by simp
      have "length (images st) + (1 + length (successes rs)) = n"
        using Cons.prems(2) GrabSucceeded by simp
      then have "length (successes rs) < 1" using eq by linarith
      then have none: "successes rs = []" by simp
      note c = assemblesD_complete[OF assms(1) eq, of x]
      show ?thesis
      proof (cases "body (GrabSucceeded x) st")
        case (Inl p)
        obtain e s' where p: "p = (e, s')" by (cases p)
        show ?thesis using c Inl p GrabSucceeded none by simp
      next
        case (Inr s')
        have "length (images s') < n" using c Inr eq by simp
        then have "ingest_all body rs s' = Inr (s'\<lparr>out := out s' @ grab_errors rs\<rparr>)"
          using failed_only[OF assms(1) _ none] by simp
        moreover have "fusions (grab_errors rs) = []" by (induction rs rule: grab_errors.induct) simp_all
        ultimately show ?thesis using c Inr GrabSucceeded none by (simp add: fusions_append)
      qed
    qed
  qed
qed

lemma retrieve_Inr:
  assumes "RetrieveResult st = Inr (r, st1)"
  shows "\<exists>rs. incoming (camera st) = r # rs \<and> 0 < pending (camera st) \<and>
           st1 = st\<lparr>camera := (camera st)\<lparr>pending := pending (camera st) - 1, incoming := rs\<rparr>\<rparr>"
proof (cases "pending (camera st) = 0")
  case True
  then show ?thesis using assms by (simp add: RetrieveResult_def)
next
  case False
  show ?thesis
  proof (cases "incoming (camera st)")
    case Nil
    then show ?thesis using assms False by (simp add: RetrieveResult_def)
  next
    case (Cons r' rs)
    then show ?thesis using assms False by (simp add: RetrieveResult_def)
  qed
qed

lemma retrieve_keeps:
  assumes "RetrieveResult st = Inr (r, st1)"
  shows "images st1 = images st" "out st1 = out st" "imageCounter st1 = imageCounter st"
  using retrieve_Inr[OF assms] by auto

lemma retrieve_Inl:
  assumes "RetrieveResult st = Inl p"
  shows "p = (TimeoutException, st)"
proof (cases "pending (camera st) = 0")
  case True
  then show ?thesis using assms by (simp add: RetrieveResult_def)
next
  case False
  then show ?thesis using assms
    by (cases "incoming (camera st)") (simp_all add: RetrieveResult_def)
qed

lemma loop_invariant:
  assumes "assembles n body" "length (images st) < n"
    and "\<forall>b \<in> set (fusions (out st)). length b = n"
  shows "length (images (final (grab_loop body k st))) \<le> n \<and>
         (\<forall>b \<in> set (fusions (out (final (grab_loop body k st)))). length b = n)"
  using assms(2,3)
proof (induction k arbitrary: st)
  case 0
  then show ?case by simp
next
  case (Suc k)
  show ?case
  proof (cases "RetrieveResult st")
    case (Inl p)
    then show ?thesis using retrieve_Inl[OF Inl] Suc.prems by simp
  next
    case (Inr q)
    obtain r st1 where q: "q = (r, st1)" by (cases q)
    have keep: "images st1 = images st" "out st1 = out st"
      using retrieve_keeps[of st r st1] Inr q by simp_all
    have one: "case ingest_all body [r] st1 of
           Inr s \<Rightarrow> length (images s) < n \<and> (\<forall>b \<in> set (fusions (out s)). length b = n)
         | Inl (e, s) \<Rightarrow> length (images s) = n \<and> (\<forall>b \<in> set (fusions (out s)). length b = n)"
      using ingest_invariant[OF assms(1), of st1 "[r]"] Suc.prems keep by simp
    show ?thesis
    proof (cases "body r st1")
      case (Inl p)
      obtain e s where p: "p = (e, s)" by (cases p)
      show ?thesis using one Inl p Inr q by simp
    next
      case (Inr s)
      have s: "length (images s) < n" "\<forall>b \<in> set (fusions (out s)). length b = n"
        using one Inr by simp_all
      have eq: "grab_loop body (Suc k) st = grab_loop body k s"
        using Inr \<open>RetrieveResult st = Inr q\<close> q by simp
      show ?thesis unfolding eq by (rule Suc.IH[OF s])
    qed
  qed
qed

text \<open>
  Claim C1. With a bracket size \<open>N > 0\<close>, from a state with an empty bracket and no
  hand-over yet, whatever the stream of grab results: every bracket handed to the fusion
  code has exactly \<open>N\<close> frames, and the stored bracket never has more than \<open>N\<close> frames
  after any number of ingests. This holds for the body of either sample applied to a
  given stream, and for either grab loop run against the device for any number of
  retrievals.
\<close>

theorem bracket_size_invariant:
  assumes "0 < c_imagesPerHDR cfg" and "images st = []" and "fusions (out st) = []"
  shows "\<forall>s \<in> {final (ingest_all (advanced_body cfg lib) rs st),
                 final (ingest_all (simple_body cfg lib) rs st),
                 final (grab_loop (advanced_body cfg lib) k st),
                 final (grab_loop (simple_body cfg lib) k st)}.
           length (images s) \<le> c_imagesPerHDR cfg \<and>
           (\<forall>b \<in> set (fusions (out s)). length b = c_imagesPerHDR cfg)"
proof -
  let ?n = "c_imagesPerHDR cfg"
  have st: "length (images st) < ?n" "\<forall>b \<in> set (fusions (out st)). length b = ?n"
    using assms by simp_all
  have ing: "length (images (final (ingest_all body rs st))) \<le> ?n \<and>
             (\<forall>b \<in> set (fusions (out (final (ingest_all body rs st)))). length b = ?n)"
    if "assembles ?n body" for body
  proof (cases "ingest_all body rs st")
    case (Inl p)
    obtain e s where "p = (e, s)" by (cases p)
    then show ?thesis using ingest_invariant[OF that st, of rs] Inl by simp
  next
    case (Inr s)
    then show ?thesis using ingest_invariant[OF that st, of rs] by simp
  qed
  show ?thesis
    using ing[OF advanced_assembles] ing[OF simple_assembles]
      loop_invariant[OF advanced_assembles st] loop_invariant[OF simple_assembles st]
    by simp
qed

text \<open>
  Claim C3. In either sample, a failed frame met with a bracket that is not full leaves
  the state as it is but for its console line: it is not stored. And a stream with
  exactly \<open>N\<close> successful frames, with failed frames anywhere among them (in any
  number), fed to an empty bracket, makes exactly one hand-over, of exactly the
  successful frames in their order of arrival.
\<close>

theorem failed_dropped_bracket_completes:
  assumes "0 < c_imagesPerHDR cfg" and "images st = []"
    and "length (successes rs) = c_imagesPerHDR cfg"
  shows "\<forall>body \<in> {advanced_body cfg lib, simple_body cfg lib}.
           (\<forall>s c d. length (images s) < c_imagesPerHDR cfg \<longrightarrow>
               body (GrabFailed c d) s = Inr (s\<lparr>out := out s @ [GrabError c d]\<rparr>)) \<and>
           fusions (out (final (ingest_all body rs st))) = fusions (out st) @ [successes rs]"
proof -
  let ?n = "c_imagesPerHDR cfg"
  have "(\<forall>s c d. length (images s) < ?n \<longrightarrow>
               body (GrabFailed c d) s = Inr (s\<lparr>out := out s @ [GrabError c d]\<rparr>)) \<and>
        fusions (out (final (ingest_all body rs st))) = fusions (out st) @ [successes rs]"
    if a: "assembles ?n body" for body
    using assemblesD_failed[OF a] completion[OF a, of st rs] assms by simp
  from this[OF advanced_assembles] this[OF simple_assembles] show ?thesis by simp
qed

text \<open>
  Claim C4, amended. Neither sample counts failed frames or resets a bracket. A stream
  of failed frames, however long, changes nothing but the console: the frames stored so
  far stay. And once the successful frames of a stream bring the stored bracket to \<open>N\<close>
  frames, the bracket handed over is the frames stored before followed by those
  successes, whatever failed frames came in between.
\<close>

theorem failed_frames_keep_bracket:
  assumes "length (images st) < c_imagesPerHDR cfg"
  shows "\<forall>body \<in> {advanced_body cfg lib, simple_body cfg lib}.
           (successes rs = [] \<longrightarrow>
              ingest_all body rs st = Inr (st\<lparr>out := out st @ grab_errors rs\<rparr>)) \<and>
           (length (images st) + length (successes rs) = c_imagesPerHDR cfg \<longrightarrow>
              fusions (out (final (ingest_all body rs st))) =
                fusions (out st) @ [images st @ successes rs])"
proof -
  let ?n = "c_imagesPerHDR cfg"
  have "(successes rs = [] \<longrightarrow>
              ingest_all body rs st = Inr (st\<lparr>out := out st @ grab_errors rs\<rparr>)) \<and>
           (length (images st) + length (successes rs) = ?n \<longrightarrow>
              fusions (out (final (ingest_all body rs st))) =
                fusions (out st) @ [images st @ successes rs])"
    if a: "assembles ?n body" for body
    using failed_only[OF a assms] completion[OF a assms] by simp
  from this[OF advanced_assembles] this[OF simple_assembles] show ?thesis by simp
qed

text \<open>The definitions a concrete run unfolds.\<close>

lemmas run_defs =
  advanced_body_def advanced_ingest_def advanced_hdr_def simple_body_def simple_ingest_def
  simple_hdr_def simple_retrigger_def TriggerSoftware_Execute_def frames_per_trigger_def
  CreateHDR_def to_cv_image_def Convert_def AttachUserBuffer_def
  test_externals_def test_mergeMertens_def test_convertPixels_def test_StitchToRight_def
  same_shape_def frame_def initial_state_def test_camera_def sample_config_def empty_image_def
  c_exposureTimeIncrement_def Let_def

theorem bracket_size_invariant_witness:
  "0 < c_imagesPerHDR sample_config \<and>
   images (initial_state (test_camera []) []) = [] \<and>
   fusions (out (initial_state (test_camera []) [])) = [] \<and>
   length (images (final (ingest_all (advanced_body sample_config test_externals)
      [GrabSucceeded frame10, GrabFailed 1 ''incomplete'',
       GrabSucceeded frame20, GrabSucceeded frame30,
       GrabSucceeded frame40]
      (initial_state (test_camera []) [])))) \<le> c_imagesPerHDR sample_config \<and>
   list_all (\<lambda>b. length b = c_imagesPerHDR sample_config)
     (fusions (out (final (ingest_all (advanced_body sample_config test_externals)
      [GrabSucceeded frame10, GrabFailed 1 ''incomplete'',
       GrabSucceeded frame20, GrabSucceeded frame30,
       GrabSucceeded frame40]
      (initial_state (test_camera []) []))))) \<and>
   fusions (out (final (ingest_all (advanced_body sample_config test_externals)
      [GrabSucceeded frame10, GrabFailed 1 ''incomplete'',
       GrabSucceeded frame20, GrabSucceeded frame30,
       GrabSucceeded frame40]
      (initial_state (test_camera []) [])))) =
   [[frame10, frame20, frame30]]"
proof -
  let ?rs = "[GrabSucceeded frame10, GrabFailed 1 ''incomplete'',
       GrabSucceeded frame20, GrabSucceeded frame30,
       GrabSucceeded frame40]"
  let ?st = "initial_state (test_camera []) []"
  have h1: "0 < c_imagesPerHDR sample_config" by (simp add: sample_config_def)
  have h2: "images ?st = []" by (simp add: initial_state_def)
  have h3: "fusions (out ?st) = []" by (simp add: initial_state_def)
  have v: "fusions (out (final (ingest_all (advanced_body sample_config test_externals) ?rs ?st))) =
     [[frame10, frame20, frame30]]"
    by (simp add: run_defs)
  from bracket_size_invariant[OF h1 h2 h3, of test_externals ?rs 0]
  have "length (images (final (ingest_all (advanced_body sample_config test_externals) ?rs ?st)))
          \<le> c_imagesPerHDR sample_config"
    and "list_all (\<lambda>b. length b = c_imagesPerHDR sample_config)
     (fusions (out (final (ingest_all (advanced_body sample_config test_externals) ?rs ?st))))"
    by (simp_all add: list_all_iff)
  then show ?thesis using h1 h2 h3 v by simp
qed

theorem failed_dropped_bracket_completes_witness:
  "0 < c_imagesPerHDR sample_config \<and>
   images (initial_state (test_camera []) []) = [] \<and>
   length (successes
      [GrabSucceeded frame10, GrabFailed 1 ''incomplete'',
       GrabSucceeded frame20, GrabFailed 2 ''incomplete'',
       GrabSucceeded frame30]) = c_imagesPerHDR sample_config \<and>
   advanced_body sample_config test_externals (GrabFailed 1 ''incomplete'')
       (initial_state (test_camera []) []) =
     Inr ((initial_state (test_camera []) [])\<lparr>out := [GrabError 1 ''incomplete'']\<rparr>) \<and>
   fusions (out (final (ingest_all (simple_body sample_config test_externals)
      [GrabSucceeded frame10, GrabFailed 1 ''incomplete'',
       GrabSucceeded frame20, GrabFailed 2 ''incomplete'',
       GrabSucceeded frame30]
      (initial_state (test_camera []) [])))) =
   [[frame10, frame20, frame30]] \<and>
   fusions (out (final (ingest_all (advanced_body sample_config test_externals)
      [GrabSucceeded frame10, GrabFailed 1 ''incomplete'',
       GrabSucceeded frame20, GrabFailed 2 ''incomplete'',
       GrabSucceeded frame30]
      (initial_state (test_camera []) [])))) =
   [[frame10, frame20, frame30]]"
proof -
  let ?rs = "[GrabSucceeded frame10, GrabFailed 1 ''incomplete'',
       GrabSucceeded frame20, GrabFailed 2 ''incomplete'',
       GrabSucceeded frame30]"
  let ?st = "initial_state (test_camera []) []"
  have h1: "0 < c_imagesPerHDR sample_config" by (simp add: sample_config_def)
  have h2: "images ?st = []" by (simp add: initial_state_def)
  have h3: "length (successes ?rs) = c_imagesPerHDR sample_config" by (simp add: sample_config_def)
  have o: "out ?st = []" by (simp add: initial_state_def)
  have l: "length (images ?st) < c_imagesPerHDR sample_config" using h1 h2 by simp
  note t = failed_dropped_bracket_completes[OF h1 h2 h3, of test_externals]
  have "advanced_body sample_config test_externals (GrabFailed 1 ''incomplete'') ?st =
     Inr (?st\<lparr>out := out ?st @ [GrabError 1 ''incomplete'']\<rparr>)"
    using t l by simp
  moreover have "fusions (out (final (ingest_all (simple_body sample_config test_externals) ?rs ?st)))
      = fusions (out ?st) @ [successes ?rs]"
    and "fusions (out (final (ingest_all (advanced_body sample_config test_externals) ?rs ?st)))
      = fusions (out ?st) @ [successes ?rs]"
    using t by simp_all
  ultimately show ?thesis using h1 h2 h3 by (simp add: o)
qed

text \<open>
  Claim C4, as stated, fails: with \<open>N = 3\<close>, one successful frame followed by four
  failed ones leaves that frame stored, and two more successful frames complete a
  bracket that starts with it.
\<close>

theorem reset_counterexample:
  "images (final (ingest_all (advanced_body sample_config test_externals)
      [GrabSucceeded frame10,
       GrabFailed 1 ''incomplete'', GrabFailed 1 ''incomplete'',
       GrabFailed 1 ''incomplete'', GrabFailed 1 ''incomplete'']
      (initial_state (test_camera []) []))) = [frame10] \<and>
   fusions (out (final (ingest_all (advanced_body sample_config test_externals)
      [GrabSucceeded frame10,
       GrabFailed 1 ''incomplete'', GrabFailed 1 ''incomplete'',
       GrabFailed 1 ''incomplete'', GrabFailed 1 ''incomplete'',
       GrabSucceeded frame20, GrabSucceeded frame30]
      (initial_state (test_camera []) [])))) =
   [[frame10, frame20, frame30]] \<and>
   images (final (ingest_all (simple_body sample_config test_externals)
      [GrabSucceeded frame10,
       GrabFailed 1 ''incomplete'', GrabFailed 1 ''incomplete'',
       GrabFailed 1 ''incomplete'', GrabFailed 1 ''incomplete'']
      (initial_state (test_camera []) []))) = [frame10] \<and>
   fusions (out (final (ingest_all (simple_body sample_config test_externals)
      [GrabSucceeded frame10,
       GrabFailed 1 ''incomplete'', GrabFailed 1 ''incomplete'',
       GrabFailed 1 ''incomplete'', GrabFailed 1 ''incomplete'',
       GrabSucceeded frame20, GrabSucceeded frame30]
      (initial_state (test_camera []) [])))) =
   [[frame10, frame20, frame30]]"
  by (simp add: run_defs)

theorem failed_frames_keep_bracket_witness:
  "length (images ((initial_state (test_camera []) [])\<lparr>images := [frame10]\<rparr>))
     < c_imagesPerHDR sample_config \<and>
   successes [GrabFailed 1 ''incomplete'', GrabFailed 2 ''incomplete'',
              GrabFailed 3 ''incomplete'', GrabFailed 4 ''incomplete''] = [] \<and>
   ingest_all (advanced_body sample_config test_externals)
     [GrabFailed 1 ''incomplete'', GrabFailed 2 ''incomplete'',
      GrabFailed 3 ''incomplete'', GrabFailed 4 ''incomplete'']
     ((initial_state (test_camera []) [])\<lparr>images := [frame10]\<rparr>) =
   Inr ((initial_state (test_camera []) [])
          \<lparr>images := [frame10],
           out := [GrabError 1 ''incomplete'', GrabError 2 ''incomplete'',
                   GrabError 3 ''incomplete'', GrabError 4 ''incomplete'']\<rparr>) \<and>
   length (images ((initial_state (test_camera []) [])\<lparr>images := [frame10]\<rparr>)) +
     length (successes [GrabFailed 1 ''incomplete'', GrabFailed 2 ''incomplete'',
                        GrabFailed 3 ''incomplete'', GrabFailed 4 ''incomplete'',
                        GrabSucceeded frame20, GrabSucceeded frame30]) =
     c_imagesPerHDR sample_config \<and>
   fusions (out (final (ingest_all (simple_body sample_config test_externals)
     [GrabFailed 1 ''incomplete'', GrabFailed 2 ''incomplete'',
      GrabFailed 3 ''incomplete'', GrabFailed 4 ''incomplete'',
      GrabSucceeded frame20, GrabSucceeded frame30]
     ((initial_state (test_camera []) [])\<lparr>images := [frame10]\<rparr>)))) =
   [[frame10, frame20, frame30]]"
proof -
  let ?rs = "[GrabFailed 1 ''incomplete'', GrabFailed 2 ''incomplete'',
              GrabFailed 3 ''incomplete'', GrabFailed 4 ''incomplete'']"
  let ?rs2 = "[GrabFailed 1 ''incomplete'', GrabFailed 2 ''incomplete'',
               GrabFailed 3 ''incomplete'', GrabFailed 4 ''incomplete'',
               GrabSucceeded frame20, GrabSucceeded frame30]"
  let ?st = "(initial_state (test_camera []) [])\<lparr>images := [frame10]\<rparr>"
  have h1: "length (images ?st) < c_imagesPerHDR sample_config" by (simp add: sample_config_def)
  have h2: "successes ?rs = []" by simp
  have h3: "length (images ?st) + length (successes ?rs2) = c_imagesPerHDR sample_config"
    by (simp add: sample_config_def)
  have o: "out ?st = []" by (simp add: initial_state_def)
  from failed_frames_keep_bracket[OF h1, of test_externals ?rs] h2
  have a: "ingest_all (advanced_body sample_config test_externals) ?rs ?st =
          Inr (?st\<lparr>out := out ?st @ grab_errors ?rs\<rparr>)" by simp
  from failed_frames_keep_bracket[OF h1, of test_externals ?rs2] h3
  have b: "fusions (out (final (ingest_all (simple_body sample_config test_externals) ?rs2 ?st))) =
          fusions (out ?st) @ [images ?st @ successes ?rs2]" by simp
  show ?thesis using h1 h2 h3 a b by (simp add: o)
qed

section \<open>Triggers of the advanced sample\<close>

lemma key_events_append: "key_events (es @ fs) = key_events es @ key_events fs"
  by (simp add: key_events_def)

lemma fusions_key_events: "fusions (key_events es) = fusions es"
  unfolding key_events_def by (induction es rule: fusions.induct) simp_all

lemma triggers_key_events: "count_list (key_events es) Trigger = count_list es Trigger"
  unfolding key_events_def by (induction es) auto

lemma count_list_append: "count_list (es @ fs) x = count_list es x + count_list fs x"
  by (induction es) simp_all

lemma burst_pattern_triggers:
  "burst_pattern n c es \<Longrightarrow> count_list es Trigger = length (fusions es)"
  by (induction n c es rule: burst_pattern.induct) simp_all

lemma advanced_body_key:
  assumes "length (images st) < c_imagesPerHDR cfg"
  shows "\<exists>new. out (final (advanced_body cfg lib r st)) = out st @ new \<and>
           key_events new =
             (case r of
                GrabFailed c d \<Rightarrow> [GrabError c d]
              | GrabSucceeded x \<Rightarrow>
                  ImageRetrieved (imageCounter st + 1) #
                  (if length (images st) + 1 = c_imagesPerHDR cfg
                   then [Trigger, Fusion (images st @ [x])] else []))"
proof (cases r)
  case (GrabFailed c d)
  have "advanced_body cfg lib r st = Inr (st\<lparr>out := out st @ [GrabError c d]\<rparr>)"
    using assms GrabFailed by (simp add: advanced_body_def advanced_ingest_failed advanced_hdr_skip)
  then show ?thesis using GrabFailed by (simp add: key_events_def)
next
  case (GrabSucceeded x)
  let ?s = "advanced_ingest cfg lib (GrabSucceeded x) st"
  show ?thesis
  proof (cases "length (images st) + 1 = c_imagesPerHDR cfg")
    case True
    then have len: "length (images ?s) = c_imagesPerHDR cfg"
      by (simp add: advanced_ingest_success)
    show ?thesis
      using advanced_hdr_full(1)[OF len, of lib] True GrabSucceeded
      by (cases "CreateHDR lib (images ?s)")
         (simp_all add: advanced_body_def advanced_ingest_success key_events_def)
  next
    case False
    then have "length (images ?s) \<noteq> c_imagesPerHDR cfg"
      by (simp add: advanced_ingest_success)
    then have "advanced_body cfg lib r st = Inr ?s"
      using GrabSucceeded by (simp add: advanced_body_def advanced_hdr_skip)
    then show ?thesis using False GrabSucceeded
      by (simp add: advanced_ingest_success key_events_def)
  qed
qed

lemma advanced_body_images:
  assumes "length (images st) < c_imagesPerHDR cfg"
    and "advanced_body cfg lib r st = Inr s'"
  shows "length (images s') =
           (case r of
              GrabFailed c d \<Rightarrow> length (images st)
            | GrabSucceeded x \<Rightarrow>
                if length (images st) + 1 = c_imagesPerHDR cfg then 0 else length (images st) + 1)"
proof (cases r)
  case (GrabFailed c d)
  then show ?thesis using assemblesD_failed[OF advanced_assembles assms(1), of lib c d] assms(2)
    by auto
next
  case (GrabSucceeded x)
  show ?thesis
  proof (cases "length (images st) + 1 = c_imagesPerHDR cfg")
    case True
    then show ?thesis
      using assemblesD_complete[OF advanced_assembles True, of lib x] assms(2) GrabSucceeded
      by simp
  next
    case False
    then have "length (images st) + 1 < c_imagesPerHDR cfg" using assms(1) by simp
    from assemblesD_filling[OF advanced_assembles this, of lib x]
    show ?thesis using assms(2) GrabSucceeded False by auto
  qed
qed

lemma advanced_loop_pattern:
  assumes "length (images st) < c_imagesPerHDR cfg"
  shows "\<exists>new. out (final (grab_loop (advanced_body cfg lib) k st)) = out st @ new \<and>
           burst_pattern (c_imagesPerHDR cfg) (length (images st)) (key_events new)"
  using assms
proof (induction k arbitrary: st)
  case 0
  then show ?case by (simp add: key_events_def)
next
  case (Suc k)
  show ?case
  proof (cases "RetrieveResult st")
    case (Inl p)
    then show ?thesis using retrieve_Inl[OF Inl] Suc.prems by (simp add: key_events_def)
  next
    case (Inr q)
    obtain r st1 where q: "q = (r, st1)" by (cases q)
    have keep: "images st1 = images st" "out st1 = out st" "imageCounter st1 = imageCounter st"
      using retrieve_keeps[of st r st1] Inr q by simp_all
    have l1: "length (images st1) < c_imagesPerHDR cfg" using Suc.prems keep by simp
    from advanced_body_key[OF l1, of lib r] obtain new1 where
      n1': "out (final (advanced_body cfg lib r st1)) = out st1 @ new1"
      and k1': "key_events new1 =
             (case r of
                GrabFailed c d \<Rightarrow> [GrabError c d]
              | GrabSucceeded x \<Rightarrow>
                  ImageRetrieved (imageCounter st1 + 1) #
                  (if length (images st1) + 1 = c_imagesPerHDR cfg
                   then [Trigger, Fusion (images st1 @ [x])] else []))"
      by blast
    have n1: "out (final (advanced_body cfg lib r st1)) = out st @ new1"
      using n1' keep by simp
    have k1: "key_events new1 =
             (case r of
                GrabFailed c d \<Rightarrow> [GrabError c d]
              | GrabSucceeded x \<Rightarrow>
                  ImageRetrieved (imageCounter st + 1) #
                  (if length (images st) + 1 = c_imagesPerHDR cfg
                   then [Trigger, Fusion (images st @ [x])] else []))"
      using k1' keep by (cases r) simp_all
    have p1: "burst_pattern (c_imagesPerHDR cfg) (length (images st)) (key_events new1 @ ks)"
      if "burst_pattern (c_imagesPerHDR cfg)
            (case r of
               GrabFailed c d \<Rightarrow> length (images st)
             | GrabSucceeded x \<Rightarrow>
                 if length (images st) + 1 = c_imagesPerHDR cfg then 0 else length (images st) + 1)
            ks" for ks
      using that k1 Suc.prems by (cases r) (auto split: if_splits)
    show ?thesis
    proof (cases "advanced_body cfg lib r st1")
      case (Inl p)
      obtain e s where p: "p = (e, s)" by (cases p)
      have "grab_loop (advanced_body cfg lib) (Suc k) st = Inl (e, s)"
        using Inl p \<open>RetrieveResult st = Inr q\<close> q by simp
      moreover have "out s = out st @ new1" using n1 Inl p by simp
      moreover have "burst_pattern (c_imagesPerHDR cfg) (length (images st)) (key_events new1)"
        using p1[of "[]"] Suc.prems by (cases r) (auto split: if_splits)
      ultimately show ?thesis by auto
    next
      case (Inr s)
      have eq: "grab_loop (advanced_body cfg lib) (Suc k) st = grab_loop (advanced_body cfg lib) k s"
        using Inr \<open>RetrieveResult st = Inr q\<close> q by simp
      have ls: "length (images s) =
           (case r of
              GrabFailed c d \<Rightarrow> length (images st)
            | GrabSucceeded x \<Rightarrow>
                if length (images st) + 1 = c_imagesPerHDR cfg then 0 else length (images st) + 1)"
        using advanced_body_images[OF l1 Inr] keep by (cases r) simp_all
      have "length (images s) < c_imagesPerHDR cfg"
        using ls Suc.prems by (cases r) (auto split: if_splits)
      from Suc.IH[OF this] obtain new2 where
        n2: "out (final (grab_loop (advanced_body cfg lib) k s)) = out s @ new2"
        and b2: "burst_pattern (c_imagesPerHDR cfg) (length (images s)) (key_events new2)"
        by blast
      have "out s = out st @ new1" using n1 Inr by simp
      then have "out (final (grab_loop (advanced_body cfg lib) (Suc k) st)) = out st @ (new1 @ new2)"
        using n2 eq by simp
      moreover have "burst_pattern (c_imagesPerHDR cfg) (length (images st)) (key_events (new1 @ new2))"
        using p1[of "key_events new2"] b2 ls by (simp add: key_events_append)
      ultimately show ?thesis by blast
    qed
  qed
qed


lemma after_try_trace:
  "\<exists>post. fst (after_try (loop_result R) stdin) = out (final R) @ post \<and> key_events post = []"
proof (cases R)
  case (Inl p)
  obtain e s where p: "p = (e, s)" by (cases p)
  show ?thesis
    using Inl p
    by (cases "is_GenericException e")
       (simp_all add: after_try_def loop_result_def wait_and_exit_def key_events_def)
next
  case (Inr s)
  then show ?thesis
    by (simp add: after_try_def loop_result_def wait_and_exit_def key_events_def)
qed

lemma advanced_start_proj:
  "images (advanced_start cfg cam es) = []"
  "out (advanced_start cfg cam es) = es @ [Trigger]"
  by (simp_all add: advanced_start_def trigger_images trigger_out initial_state_def)

lemma advanced_main_trace:
  assumes "0 < c_imagesPerHDR cfg" "sequencerWritable cam"
  shows "\<exists>new post.
           fst (advanced_main cfg lib (Some cam) stdin) =
             [Console (''Using device '' @ modelName cam), Trigger] @ new @ post \<and>
           burst_pattern (c_imagesPerHDR cfg) 0 (key_events new) \<and> key_events post = []"
proof -
  let ?es = "[Console (''Using device '' @ modelName cam)]"
  let ?st = "advanced_start cfg (sequencer_setup cfg cam) ?es"
  let ?R = "grab_loop (advanced_body cfg lib) (c_countOfImagesToGrab cfg) ?st"
  have m: "advanced_main cfg lib (Some cam) stdin = after_try (loop_result ?R) stdin"
    using assms(2)
    by (simp add: advanced_main_def advanced_try_def CreateFirstDevice_def build_def Let_def)
  have l: "length (images ?st) < c_imagesPerHDR cfg"
    using assms(1) by (simp add: advanced_start_proj)
  from advanced_loop_pattern[OF l, of lib "c_countOfImagesToGrab cfg"] obtain new where
    n: "out (final ?R) = out ?st @ new"
    and b: "burst_pattern (c_imagesPerHDR cfg) (length (images ?st)) (key_events new)"
    by blast
  from after_try_trace[of ?R stdin] obtain post where
    p: "fst (after_try (loop_result ?R) stdin) = out (final ?R) @ post" "key_events post = []"
    by blast
  have "fst (advanced_main cfg lib (Some cam) stdin) = (?es @ [Trigger]) @ new @ post"
    using m n p(1) by (simp add: advanced_start_proj)
  moreover have "burst_pattern (c_imagesPerHDR cfg) 0 (key_events new)"
    using b by (simp add: advanced_start_proj)
  ultimately show ?thesis using p(2) by auto
qed

lemma advanced_main_no_acquisition:
  assumes "\<not> acquires dev"
  shows "key_events (fst (advanced_main cfg lib dev stdin)) = []"
proof (cases dev)
  case None
  then show ?thesis
    by (simp add: advanced_main_def advanced_try_def CreateFirstDevice_def after_try_def
          wait_and_exit_def key_events_def)
next
  case (Some cam)
  then have "\<not> sequencerWritable cam" using assms by (simp add: acquires_def)
  then show ?thesis using Some
    by (simp add: advanced_main_def advanced_try_def CreateFirstDevice_def build_def
          after_try_def key_events_def Let_def)
qed

text \<open>
  A trace in which the frames are retrieved and no trigger follows the frame that fills
  the bracket does not have the pattern, whether the run ends there or goes on
  retrieving; nor does a trace whose trigger comes before the bracket is full.
\<close>

lemma burst_run_rejects:
  "\<not> burst_run 3 [Trigger, ImageRetrieved 1, ImageRetrieved 2, ImageRetrieved 3]"
  "\<not> burst_run 3 [Trigger, ImageRetrieved 1, ImageRetrieved 2, ImageRetrieved 3,
                   ImageRetrieved 4]"
  "\<not> burst_run 3 [Trigger, ImageRetrieved 1, ImageRetrieved 2, Trigger, Fusion [x, y, z]]"
  "\<not> burst_run 3 [ImageRetrieved 1, ImageRetrieved 2, ImageRetrieved 3, Trigger,
                   Fusion [x, y, z]]"
  by simp_all

text \<open>
  Claim C9. In every run of the advanced sample with a bracket size \<open>N > 0\<close> that
  reaches the acquisition (the camera is found and its sequencer can be written), the
  first trigger, retrieval or hand-over of the run is a software trigger, sent before
  any retrieval. After it, every retrieval takes place with fewer than \<open>N\<close> frames
  retrieved with success since the last hand-over; the retrieval that brings the
  \<open>N\<close>-th such frame is directly followed by a software trigger and then by the
  hand-over of a bracket of \<open>N\<close> frames to the fusion code; a trigger is sent nowhere
  else, and the run does not end with \<open>N\<close> frames retrieved and no trigger sent for
  them. So the run sends one trigger more than it hands over brackets. A run that does
  not reach the acquisition sends no trigger and retrieves nothing.
\<close>

theorem burst_trigger_discipline:
  assumes "0 < c_imagesPerHDR cfg"
  shows "if acquires dev
         then burst_run (c_imagesPerHDR cfg) (key_events (fst (advanced_main cfg lib dev stdin))) \<and>
              count_list (fst (advanced_main cfg lib dev stdin)) Trigger =
                1 + length (fusions (fst (advanced_main cfg lib dev stdin)))
         else key_events (fst (advanced_main cfg lib dev stdin)) = []"
proof (cases "acquires dev")
  case False
  then show ?thesis using advanced_main_no_acquisition[OF False] by simp
next
  case True
  then obtain cam where dev: "dev = Some cam" and w: "sequencerWritable cam"
    by (cases dev) (simp_all add: acquires_def)
  from advanced_main_trace[OF assms w, of lib stdin] obtain new post where
    t: "fst (advanced_main cfg lib (Some cam) stdin) =
             [Console (''Using device '' @ modelName cam), Trigger] @ new @ post"
    and b: "burst_pattern (c_imagesPerHDR cfg) 0 (key_events new)"
    and p: "key_events post = []"
    by blast
  have k: "key_events (fst (advanced_main cfg lib dev stdin)) = Trigger # key_events new"
    using t p dev by (simp add: key_events_append) (simp add: key_events_def)
  have c: "count_list (key_events new) Trigger = length (fusions (key_events new))"
    by (rule burst_pattern_triggers[OF b])
  have "count_list (key_events (fst (advanced_main cfg lib dev stdin))) Trigger =
          1 + length (fusions (key_events (fst (advanced_main cfg lib dev stdin))))"
    unfolding k using c by simp
  then have "count_list (fst (advanced_main cfg lib dev stdin)) Trigger =
          1 + length (fusions (fst (advanced_main cfg lib dev stdin)))"
    by (simp only: triggers_key_events fusions_key_events)
  then show ?thesis using True k b by simp
qed

text \<open>The definitions a concrete run of a whole program unfolds as well.\<close>

lemmas main_defs =
  advanced_start_def simple_start_def StartGrabbing_def advanced_trigger_setup_def
  simple_setup_def sequencer_setup_def sequencer_loop.simps sequencer_step_def
  SequencerSetSave_def RetrieveResult_def

theorem burst_trigger_discipline_witness:
  "0 < c_imagesPerHDR sample_config \<and>
   acquires (Some (test_camera [GrabSucceeded frame10,
                                GrabSucceeded frame20,
                                GrabSucceeded frame30])) \<and>
   burst_run (c_imagesPerHDR sample_config)
     (key_events (fst (advanced_main sample_config test_externals
        (Some (test_camera [GrabSucceeded frame10,
                            GrabSucceeded frame20,
                            GrabSucceeded frame30])) []))) \<and>
   count_list (fst (advanced_main sample_config test_externals
        (Some (test_camera [GrabSucceeded frame10,
                            GrabSucceeded frame20,
                            GrabSucceeded frame30])) [])) Trigger =
     1 + length (fusions (fst (advanced_main sample_config test_externals
        (Some (test_camera [GrabSucceeded frame10,
                            GrabSucceeded frame20,
                            GrabSucceeded frame30])) []))) \<and>
   key_events (fst (advanced_main sample_config test_externals
        (Some (test_camera [GrabSucceeded frame10,
                            GrabSucceeded frame20,
                            GrabSucceeded frame30])) [])) =
   [Trigger, ImageRetrieved 1, ImageRetrieved 2, ImageRetrieved 3, Trigger,
    Fusion [frame10, frame20, frame30]]"
proof -
  let ?dev = "Some (test_camera [GrabSucceeded frame10,
                                GrabSucceeded frame20,
                                GrabSucceeded frame30])"
  have h1: "0 < c_imagesPerHDR sample_config" by (simp add: sample_config_def)
  have a: "acquires ?dev" by (simp add: acquires_def test_camera_def)
  have v: "key_events (fst (advanced_main sample_config test_externals ?dev [])) =
     [Trigger, ImageRetrieved 1, ImageRetrieved 2, ImageRetrieved 3, Trigger,
      Fusion [frame10, frame20, frame30]]"
    by (simp add: advanced_main_def advanced_try_def CreateFirstDevice_def build_def
          after_try_def loop_result_def wait_and_exit_def key_events_def
          numeral_eq_Suc run_defs main_defs)
  from burst_trigger_discipline[OF h1, of ?dev test_externals "[]"] a
  have "burst_run (c_imagesPerHDR sample_config)
          (key_events (fst (advanced_main sample_config test_externals ?dev [])))"
    and "count_list (fst (advanced_main sample_config test_externals ?dev [])) Trigger =
          1 + length (fusions (fst (advanced_main sample_config test_externals ?dev [])))"
    by simp_all
  then show ?thesis using h1 a v by simp
qed

section \<open>A retrieval that times out\<close>

lemma grab_loop_add:
  "grab_loop body (k + m) st =
     (case grab_loop body k st of Inl e \<Rightarrow> Inl e | Inr s \<Rightarrow> grab_loop body m s)"
proof (induction k arbitrary: st)
  case 0
  then show ?case by simp
next
  case (Suc k)
  show ?case
  proof (cases "RetrieveResult st")
    case (Inl p)
    then show ?thesis by simp
  next
    case (Inr q)
    obtain r st1 where q: "q = (r, st1)" by (cases q)
    show ?thesis
    proof (cases "body r st1")
      case (Inl p)
      then show ?thesis using \<open>RetrieveResult st = Inr q\<close> q by simp
    next
      case (Inr s)
      then show ?thesis using \<open>RetrieveResult st = Inr q\<close> q Suc.IH[of s] by simp
    qed
  qed
qed

lemma retrieve_timeout:
  assumes "pending (camera st) = 0 \<or> incoming (camera st) = []"
  shows "RetrieveResult st = Inl (TimeoutException, st)"
proof (cases "pending (camera st) = 0")
  case True
  then show ?thesis by (simp add: RetrieveResult_def)
next
  case False
  then have "incoming (camera st) = []" using assms by simp
  then show ?thesis using False by (simp add: RetrieveResult_def)
qed

lemma loop_timeout:
  assumes "grab_loop body k st0 = Inr st" and "k < n"
    and "pending (camera st) = 0 \<or> incoming (camera st) = []"
  shows "grab_loop body n st0 = Inl (TimeoutException, st)"
proof -
  from less_imp_Suc_add[OF assms(2)] obtain m where "n = Suc (k + m)" by blast
  then have n: "n = k + Suc m" by simp
  have "grab_loop body (Suc m) st = Inl (TimeoutException, st)"
    using retrieve_timeout[OF assms(3)] by simp
  then have "grab_loop body (k + Suc m) st0 = Inl (TimeoutException, st)"
    using assms(1) by (simp only: grab_loop_add[of body k "Suc m" st0] sum.case)
  then show ?thesis using n by simp
qed

text \<open>
  Claim C5. Take a run of either sample that has been through \<open>k\<close> passes of its
  loop, with results still to come, and in which no frame arrives for the next
  retrieval (no triggered frame is outstanding, or the device delivers nothing more);
  the operator presses Enter at the closing prompt. Then that retrieval raises the
  timeout exception; the exception ends the loop at once (no further retrieval, trigger
  or hand-over: the events of the run are those before the timeout, followed by the
  report of the exception and its description and the closing prompt; the brackets
  handed over are those handed over before); and the process exits with code 1.
\<close>

theorem retrieval_timeout_is_fatal:
  assumes "press_enter stdin"
    and "k < c_countOfImagesToGrab cfg"
    and "pending (camera st) = 0 \<or> incoming (camera st) = []"
  shows "RetrieveResult st = Inl (TimeoutException, st) \<and>
         (sequencerWritable cam \<and>
          grab_loop (advanced_body cfg lib) k
            (advanced_start cfg (sequencer_setup cfg cam)
               [Console (''Using device '' @ modelName cam)]) = Inr st \<longrightarrow>
          advanced_main cfg lib (Some cam) stdin =
            (out st @ [Console ''An exception occurred.'',
                       ExceptionOccurred (GetDescription TimeoutException),
                       Console ''Press Enter to exit.''],
             Exit 1) \<and>
          fusions (fst (advanced_main cfg lib (Some cam) stdin)) = fusions (out st)) \<and>
         (grab_loop (simple_body cfg lib) k
            (simple_start cfg cam [Console (''Using device '' @ modelName cam)]) = Inr st \<longrightarrow>
          simple_main cfg lib (Some cam) stdin =
            (out st @ [Console ''An exception occurred.'',
                       ExceptionOccurred (GetDescription TimeoutException),
                       Console ''Press Enter to exit.''],
             Exit 1) \<and>
          fusions (fst (simple_main cfg lib (Some cam) stdin)) = fusions (out st))"
proof (intro conjI impI)
  show "RetrieveResult st = Inl (TimeoutException, st)"
    by (rule retrieve_timeout[OF assms(3)])
next
  assume a: "sequencerWritable cam \<and>
          grab_loop (advanced_body cfg lib) k
            (advanced_start cfg (sequencer_setup cfg cam)
               [Console (''Using device '' @ modelName cam)]) = Inr st"
  then have w: "sequencerWritable cam"
    and g: "grab_loop (advanced_body cfg lib) k
            (advanced_start cfg (sequencer_setup cfg cam)
               [Console (''Using device '' @ modelName cam)]) = Inr st"
    by simp_all
  have l: "grab_loop (advanced_body cfg lib) (c_countOfImagesToGrab cfg)
             (advanced_start cfg (sequencer_setup cfg cam)
                [Console (''Using device '' @ modelName cam)]) =
           Inl (TimeoutException, st)"
    by (rule loop_timeout[OF g assms(2,3)])
  show m: "advanced_main cfg lib (Some cam) stdin =
           (out st @ [Console ''An exception occurred.'',
                      ExceptionOccurred (GetDescription TimeoutException),
                      Console ''Press Enter to exit.''],
            Exit 1)"
    using w l assms(1)
    by (simp add: advanced_main_def advanced_try_def CreateFirstDevice_def build_def Let_def
          loop_result_def after_try_def wait_and_exit_def)
  show "fusions (fst (advanced_main cfg lib (Some cam) stdin)) = fusions (out st)"
    unfolding m by (simp add: fusions_append)
next
  assume g: "grab_loop (simple_body cfg lib) k
            (simple_start cfg cam [Console (''Using device '' @ modelName cam)]) = Inr st"
  have l: "grab_loop (simple_body cfg lib) (c_countOfImagesToGrab cfg)
             (simple_start cfg cam [Console (''Using device '' @ modelName cam)]) =
           Inl (TimeoutException, st)"
    by (rule loop_timeout[OF g assms(2,3)])
  show m: "simple_main cfg lib (Some cam) stdin =
           (out st @ [Console ''An exception occurred.'',
                      ExceptionOccurred (GetDescription TimeoutException),
                      Console ''Press Enter to exit.''],
            Exit 1)"
    using l assms(1)
    by (simp add: simple_main_def simple_try_def CreateFirstDevice_def Let_def
          loop_result_def after_try_def wait_and_exit_def)
  show "fusions (fst (simple_main cfg lib (Some cam) stdin)) = fusions (out st)"
    unfolding m by (simp add: fusions_append)
qed

theorem retrieval_timeout_is_fatal_witness:
  "press_enter [CHR 0x0A] \<and>
   2 < c_countOfImagesToGrab sample_config \<and>
   sequencerWritable (test_camera [GrabSucceeded frame10, GrabSucceeded frame20]) \<and>
   (\<exists>st. grab_loop (advanced_body sample_config test_externals) 2
           (advanced_start sample_config
              (sequencer_setup sample_config
                 (test_camera [GrabSucceeded frame10, GrabSucceeded frame20]))
              [Console (''Using device '' @
                 modelName (test_camera [GrabSucceeded frame10,
                                         GrabSucceeded frame20]))]) = Inr st \<and>
         incoming (camera st) = [] \<and>
         RetrieveResult st = Inl (TimeoutException, st) \<and>
         advanced_main sample_config test_externals
           (Some (test_camera [GrabSucceeded frame10, GrabSucceeded frame20])) [CHR 0x0A] =
           (out st @ [Console ''An exception occurred.'', ExceptionOccurred ''Grab timed out.'',
                      Console ''Press Enter to exit.''], Exit 1)) \<and>
   (\<exists>st. grab_loop (simple_body sample_config test_externals) 2
           (simple_start sample_config
              (test_camera [GrabSucceeded frame10, GrabSucceeded frame20])
              [Console (''Using device '' @
                 modelName (test_camera [GrabSucceeded frame10,
                                         GrabSucceeded frame20]))]) = Inr st \<and>
         incoming (camera st) = [] \<and>
         RetrieveResult st = Inl (TimeoutException, st) \<and>
         simple_main sample_config test_externals
           (Some (test_camera [GrabSucceeded frame10, GrabSucceeded frame20])) [CHR 0x0A] =
           (out st @ [Console ''An exception occurred.'', ExceptionOccurred ''Grab timed out.'',
                      Console ''Press Enter to exit.''], Exit 1)) \<and>
   advanced_main sample_config test_externals
     (Some (test_camera [GrabSucceeded frame10, GrabSucceeded frame20])) [CHR 0x0A] =
   ([Console ''Using device acA1920-40uc'', Trigger,
     ImageRetrieved 1, DisplayImage 1 (test_StitchToRight empty_image frame10),
     ImageRetrieved 2,
     DisplayImage 1 (test_StitchToRight (test_StitchToRight empty_image frame10) frame20),
     Console ''An exception occurred.'', ExceptionOccurred ''Grab timed out.'',
     Console ''Press Enter to exit.''],
    Exit 1)"
proof -
  let ?cam = "test_camera [GrabSucceeded frame10, GrabSucceeded frame20]"
  let ?sta = "advanced_start sample_config (sequencer_setup sample_config ?cam)
                [Console (''Using device '' @ modelName ?cam)]"
  let ?sts = "simple_start sample_config ?cam [Console (''Using device '' @ modelName ?cam)]"
  have h1: "press_enter [CHR 0x0A]" by simp
  have h2: "2 < c_countOfImagesToGrab sample_config" by (simp add: sample_config_def)
  have w: "sequencerWritable ?cam" by (simp add: test_camera_def)
  have "\<exists>st. grab_loop (advanced_body sample_config test_externals) 2 ?sta = Inr st \<and>
          incoming (camera st) = []"
    by (simp add: numeral_2_eq_2 run_defs main_defs)
  then obtain sta where
    ga: "grab_loop (advanced_body sample_config test_externals) 2 ?sta = Inr sta"
    and ia: "incoming (camera sta) = []" by blast
  have "\<exists>st. grab_loop (simple_body sample_config test_externals) 2 ?sts = Inr st \<and>
          incoming (camera st) = []"
    by (simp add: numeral_2_eq_2 run_defs main_defs)
  then obtain sts where
    gs: "grab_loop (simple_body sample_config test_externals) 2 ?sts = Inr sts"
    and isx: "incoming (camera sts) = []" by blast
  have h3a: "pending (camera sta) = 0 \<or> incoming (camera sta) = []" using ia by simp
  have h3s: "pending (camera sts) = 0 \<or> incoming (camera sts) = []" using isx by simp
  from retrieval_timeout_is_fatal[OF h1 h2 h3a, of ?cam test_externals] w ga
  have a: "RetrieveResult sta = Inl (TimeoutException, sta)"
    "advanced_main sample_config test_externals (Some ?cam) [CHR 0x0A] =
       (out sta @ [Console ''An exception occurred.'', ExceptionOccurred ''Grab timed out.'',
                   Console ''Press Enter to exit.''], Exit 1)"
    by simp_all
  from retrieval_timeout_is_fatal[OF h1 h2 h3s, of ?cam test_externals] gs
  have s: "RetrieveResult sts = Inl (TimeoutException, sts)"
    "simple_main sample_config test_externals (Some ?cam) [CHR 0x0A] =
       (out sts @ [Console ''An exception occurred.'', ExceptionOccurred ''Grab timed out.'',
                   Console ''Press Enter to exit.''], Exit 1)"
    by simp_all
  have v: "advanced_main sample_config test_externals (Some ?cam) [CHR 0x0A] =
   ([Console ''Using device acA1920-40uc'', Trigger,
     ImageRetrieved 1, DisplayImage 1 (test_StitchToRight empty_image frame10),
     ImageRetrieved 2,
     DisplayImage 1 (test_StitchToRight (test_StitchToRight empty_image frame10) frame20),
     Console ''An exception occurred.'', ExceptionOccurred ''Grab timed out.'',
     Console ''Press Enter to exit.''],
    Exit 1)"
    by (simp add: advanced_main_def advanced_try_def CreateFirstDevice_def build_def
          after_try_def loop_result_def wait_and_exit_def
          numeral_eq_Suc run_defs main_defs)
  have ea: "\<exists>st. grab_loop (advanced_body sample_config test_externals) 2 ?sta = Inr st \<and>
         incoming (camera st) = [] \<and>
         RetrieveResult st = Inl (TimeoutException, st) \<and>
         advanced_main sample_config test_externals (Some ?cam) [CHR 0x0A] =
           (out st @ [Console ''An exception occurred.'', ExceptionOccurred ''Grab timed out.'',
                      Console ''Press Enter to exit.''], Exit 1)"
    using ga ia a by blast
  have es: "\<exists>st. grab_loop (simple_body sample_config test_externals) 2 ?sts = Inr st \<and>
         incoming (camera st) = [] \<and>
         RetrieveResult st = Inl (TimeoutException, st) \<and>
         simple_main sample_config test_externals (Some ?cam) [CHR 0x0A] =
           (out st @ [Console ''An exception occurred.'', ExceptionOccurred ''Grab timed out.'',
                      Console ''Press Enter to exit.''], Exit 1)"
    using gs isx s by blast
  show ?thesis
    by (intro conjI) (fact h1 h2 w ea es v)+
qed

section \<open>A failed frame in the simple sample\<close>

lemma simple_ingest_camera:
  "camera (simple_ingest cfg lib (GrabSucceeded x) st) =
     (camera st)\<lparr>ExposureTime :=
          (if imageCounter st + 1 = c_imagesPerHDR cfg then c_lowExposureTime cfg
           else dadd (ExposureTime (camera st)) (c_exposureTimeIncrement cfg)),
        pending := pending (camera st) + frames_per_trigger (camera st)\<rparr>"
  by (simp add: simple_ingest_def Let_def simple_retrigger_camera)

lemma simple_hdr_keeps:
  "camera (final (simple_hdr cfg lib st)) = camera st"
  "count_list (out (final (simple_hdr cfg lib st))) Trigger = count_list (out st) Trigger"
  by (cases "length (images st) = c_imagesPerHDR cfg"; cases "CreateHDR lib (images st)";
      simp add: simple_hdr_def Let_def count_list_append)+

lemma simple_failed_keeps:
  "camera (final (simple_body cfg lib (GrabFailed c d) s)) = camera s"
  "count_list (out (final (simple_body cfg lib (GrabFailed c d) s))) Trigger =
     count_list (out s) Trigger"
  by (simp_all add: simple_body_def simple_ingest_failed simple_hdr_keeps count_list_append)

lemma assembles_keeps_room:
  assumes "assembles n body" "length (images st) < n" "body r st = Inr s"
  shows "length (images s) < n"
proof (cases r)
  case (GrabFailed c d)
  then show ?thesis using assemblesD_failed[OF assms(1,2), of c d] assms(2,3) by auto
next
  case (GrabSucceeded x)
  show ?thesis
  proof (cases "length (images st) + 1 = n")
    case True
    then show ?thesis
      using assemblesD_complete[OF assms(1) True, of x] assms(3) GrabSucceeded by simp
  next
    case False
    then have "length (images st) + 1 < n" using assms(2) by simp
    from assemblesD_filling[OF assms(1) this, of x]
    show ?thesis using assms(3) GrabSucceeded \<open>length (images st) + 1 < n\<close> by auto
  qed
qed

lemma single_shot_start:
  assumes "0 < c_imagesPerHDR cfg" "TriggerSelector cam = TriggerSelector_FrameStart"
  shows "single_shot (c_imagesPerHDR cfg) (simple_start cfg cam es)"
  using assms
  by (simp add: single_shot_def simple_start_def trigger_images trigger_camera
        initial_state_def StartGrabbing_def simple_setup_def Let_def frames_per_trigger_def)

lemma single_shot_step:
  assumes "single_shot (c_imagesPerHDR cfg) st"
    and "RetrieveResult st = Inr (r, st1)"
    and "simple_body cfg lib r st1 = Inr s"
  shows "single_shot (c_imagesPerHDR cfg) s"
proof -
  from retrieve_Inr[OF assms(2)] obtain rs where
    st1: "st1 = st\<lparr>camera := (camera st)\<lparr>pending := pending (camera st) - 1, incoming := rs\<rparr>\<rparr>"
    and pos: "0 < pending (camera st)" by blast
  have p1: "pending (camera st1) = 0" "TriggerSelector (camera st1) = TriggerSelector_FrameStart"
    and l1: "length (images st1) < c_imagesPerHDR cfg"
    using assms(1) st1 by (simp_all add: single_shot_def)
  show ?thesis
  proof (cases r)
    case (GrabFailed c d)
    then have "s = st1\<lparr>out := out st1 @ [GrabError c d]\<rparr>"
      using assemblesD_failed[OF simple_assembles l1, of lib c d] assms(3) by simp
    then show ?thesis using p1 l1 by (simp add: single_shot_def)
  next
    case (GrabSucceeded x)
    have "camera s = camera (final (simple_hdr cfg lib (simple_ingest cfg lib r st1)))"
      using assms(3) by (simp add: simple_body_def)
    then have c: "camera s = camera (simple_ingest cfg lib (GrabSucceeded x) st1)"
      using GrabSucceeded by (simp add: simple_hdr_keeps)
    have "length (images s) < c_imagesPerHDR cfg"
      by (rule assembles_keeps_room[OF simple_assembles l1 assms(3)])
    then show ?thesis using c p1
      by (simp add: single_shot_def simple_ingest_camera frames_per_trigger_def)
  qed
qed

lemma single_shot_loop:
  assumes "single_shot (c_imagesPerHDR cfg) st"
    and "grab_loop (simple_body cfg lib) k st = Inr s"
  shows "single_shot (c_imagesPerHDR cfg) s"
  using assms
proof (induction k arbitrary: st)
  case 0
  then show ?case by simp
next
  case (Suc k)
  show ?case
  proof (cases "RetrieveResult st")
    case (Inl p)
    then show ?thesis using Suc.prems(2) by simp
  next
    case (Inr q)
    obtain r st1 where q: "q = (r, st1)" by (cases q)
    show ?thesis
    proof (cases "simple_body cfg lib r st1")
      case (Inl p)
      then show ?thesis using Suc.prems(2) \<open>RetrieveResult st = Inr q\<close> q by simp
    next
      case (Inr s2)
      have r: "RetrieveResult st = Inr (r, st1)" using \<open>RetrieveResult st = Inr q\<close> q by simp
      have "grab_loop (simple_body cfg lib) k s2 = Inr s"
        using Suc.prems(2) r Inr by simp
      then show ?thesis using Suc.IH[OF single_shot_step[OF Suc.prems(1) r Inr]] by simp
    qed
  qed
qed

text \<open>
  Claim C10. In the simple sample a pass of the loop that retrieved a failed frame
  changes no camera register and sends no trigger, in whatever state. In a run whose
  camera starts single frames (the frame start trigger is selected), with a bracket
  size above 0: when a pass retrieves a failed frame, that pass only prints the error,
  no triggered frame is outstanding afterwards, and if the loop goes on its next
  retrieval times out, whatever the device would still deliver and however many results
  remain to be grabbed.
\<close>

theorem failed_frame_stalls_simple:
  assumes "0 < c_imagesPerHDR cfg"
    and "TriggerSelector cam = TriggerSelector_FrameStart"
    and "grab_loop (simple_body cfg lib) k (simple_start cfg cam es) = Inr st"
    and "RetrieveResult st = Inr (GrabFailed c d, st1)"
  shows "(\<forall>s. camera (final (simple_body cfg lib (GrabFailed c d) s)) = camera s \<and>
              count_list (out (final (simple_body cfg lib (GrabFailed c d) s))) Trigger =
                count_list (out s) Trigger) \<and>
         simple_body cfg lib (GrabFailed c d) st1 = Inr (st1\<lparr>out := out st1 @ [GrabError c d]\<rparr>) \<and>
         pending (camera st1) = 0 \<and>
         (\<forall>m. grab_loop (simple_body cfg lib) (k + Suc (Suc m)) (simple_start cfg cam es) =
                Inl (TimeoutException, st1\<lparr>out := out st1 @ [GrabError c d]\<rparr>))"
proof -
  let ?n = "c_imagesPerHDR cfg"
  let ?s2 = "st1\<lparr>out := out st1 @ [GrabError c d]\<rparr>"
  have inv: "single_shot ?n st"
    by (rule single_shot_loop[OF single_shot_start[OF assms(1,2)] assms(3)])
  from retrieve_Inr[OF assms(4)] obtain rs where
    st1: "st1 = st\<lparr>camera := (camera st)\<lparr>pending := pending (camera st) - 1, incoming := rs\<rparr>\<rparr>"
    by blast
  have p: "pending (camera st1) = 0" and l1: "length (images st1) < ?n"
    using inv st1 by (simp_all add: single_shot_def)
  have b: "simple_body cfg lib (GrabFailed c d) st1 = Inr ?s2"
    by (rule assemblesD_failed[OF simple_assembles l1])
  have t: "RetrieveResult ?s2 = Inl (TimeoutException, ?s2)"
    using p by (simp add: retrieve_timeout)
  have two: "grab_loop (simple_body cfg lib) (Suc (Suc m)) st = Inl (TimeoutException, ?s2)" for m
    using assms(4) b t by simp
  have "grab_loop (simple_body cfg lib) (k + Suc (Suc m)) (simple_start cfg cam es) =
          Inl (TimeoutException, ?s2)" for m
    using two[of m] assms(3)
    by (simp only: grab_loop_add[of _ k "Suc (Suc m)"] sum.case)
  then show ?thesis using b p simple_failed_keeps[of cfg lib c d] by simp
qed

theorem failed_frame_stalls_simple_witness:
  "0 < c_imagesPerHDR sample_config \<and>
   TriggerSelector
     (test_camera [GrabSucceeded frame10, GrabFailed 1 ''incomplete'',
                   GrabSucceeded frame20]) = TriggerSelector_FrameStart \<and>
   (\<exists>st st1.
      grab_loop (simple_body sample_config test_externals) 1
        (simple_start sample_config
           (test_camera [GrabSucceeded frame10, GrabFailed 1 ''incomplete'',
                         GrabSucceeded frame20]) []) = Inr st \<and>
      RetrieveResult st = Inr (GrabFailed 1 ''incomplete'', st1) \<and>
      pending (camera st1) = 0 \<and>
      incoming (camera st1) = [GrabSucceeded frame20] \<and>
      grab_loop (simple_body sample_config test_externals) 1000
        (simple_start sample_config
           (test_camera [GrabSucceeded frame10, GrabFailed 1 ''incomplete'',
                         GrabSucceeded frame20]) []) =
        Inl (TimeoutException, st1\<lparr>out := out st1 @ [GrabError 1 ''incomplete'']\<rparr>))"
proof -
  let ?cam = "test_camera [GrabSucceeded frame10, GrabFailed 1 ''incomplete'',
                           GrabSucceeded frame20]"
  let ?st0 = "simple_start sample_config ?cam []"
  have h1: "0 < c_imagesPerHDR sample_config" by (simp add: sample_config_def)
  have h2: "TriggerSelector ?cam = TriggerSelector_FrameStart" by (simp add: test_camera_def)
  have "\<exists>st st1. grab_loop (simple_body sample_config test_externals) 1 ?st0 = Inr st \<and>
          RetrieveResult st = Inr (GrabFailed 1 ''incomplete'', st1) \<and>
          incoming (camera st1) = [GrabSucceeded frame20]"
    by (simp add: run_defs main_defs)
  then obtain st st1 where
    h3: "grab_loop (simple_body sample_config test_externals) 1 ?st0 = Inr st"
    and h4: "RetrieveResult st = Inr (GrabFailed 1 ''incomplete'', st1)"
    and i: "incoming (camera st1) = [GrabSucceeded frame20]"
    by blast
  note t = failed_frame_stalls_simple[OF h1 h2 h3 h4]
  have p: "pending (camera st1) = 0" using t by simp
  have "grab_loop (simple_body sample_config test_externals) (1 + Suc (Suc 997)) ?st0 =
          Inl (TimeoutException, st1\<lparr>out := out st1 @ [GrabError 1 ''incomplete'']\<rparr>)"
    using t by blast
  then have "grab_loop (simple_body sample_config test_externals) 1000 ?st0 =
          Inl (TimeoutException, st1\<lparr>out := out st1 @ [GrabError 1 ''incomplete'']\<rparr>)"
    by simp
  then show ?thesis using h1 h2 h3 h4 i p by blast
qed

section \<open>The fusion of a bracket\<close>

lemma cv_images_shape:
  "list_all2 (\<lambda>img m. mtype m = CV_8UC3 \<and> rows m = height img \<and> cols m = width img)
     imgs (cv_images_of lib imgs)"
  by (induction imgs) (simp_all add: to_cv_image_def Convert_def Let_def)

lemma cv_images_nonempty: "imgs \<noteq> [] \<Longrightarrow> cv_images_of lib imgs \<noteq> []"
  by (cases imgs) simp_all

lemma cv_images_same_shape:
  assumes "\<forall>i \<in> set imgs. width i = w \<and> height i = h"
  shows "list_all (\<lambda>m. mtype m = CV_8UC3 \<and> rows m = h \<and> cols m = w) (cv_images_of lib imgs)"
  using assms by (induction imgs) (simp_all add: to_cv_image_def Convert_def Let_def)

text \<open>
  Claim C7, as stated, fails: a bracket of one frame, and a bracket of two frames of
  different pixel formats, are both fused without an error.
\<close>

theorem fusion_checks_nothing_counterexample:
  "length [frame PixelType_Mono8 [7]] < 2 \<and>
   CreateHDR test_externals [frame PixelType_Mono8 [7]] =
     Inr \<lparr>pixelType = PixelType_BGR8packed, width = 1, height = 1, buffer = [7, 7, 7]\<rparr> \<and>
   pixelType (frame PixelType_Mono8 [7]) \<noteq> pixelType (frame PixelType_BGR8packed [1, 9, 3]) \<and>
   CreateHDR test_externals [frame PixelType_Mono8 [7], frame PixelType_BGR8packed [1, 9, 3]] =
     Inr \<lparr>pixelType = PixelType_BGR8packed, width = 1, height = 1, buffer = [7, 9, 7]\<rparr>"
  by (simp add: run_defs)

text \<open>
  Claim C7, amended. \<open>CreateHDR\<close> checks nothing itself. Every matrix it hands to the
  fusion library has the type \<open>CV_8UC3\<close> and the height and width of its frame,
  whatever the pixel formats of the frames; it fails exactly when the fusion library
  raises an exception on these matrices, and with that exception; and with a library
  that accepts every non-empty list of \<open>CV_8UC3\<close> matrices of one size, it fuses every
  non-empty bracket whose frames agree in width and height, also a bracket of one frame
  and a bracket of mixed pixel formats.
\<close>

theorem fusion_checks_nothing:
  "list_all2 (\<lambda>img m. mtype m = CV_8UC3 \<and> rows m = height img \<and> cols m = width img)
     imgs (cv_images_of lib imgs) \<and>
   (\<forall>e. CreateHDR lib imgs = Inl e \<longleftrightarrow> mergeMertens lib (cv_images_of lib imgs) = Inl e) \<and>
   ((\<forall>ms w h. ms \<noteq> [] \<and> list_all (\<lambda>m. mtype m = CV_8UC3 \<and> rows m = h \<and> cols m = w) ms
        \<longrightarrow> (\<exists>r. mergeMertens lib ms = Inr r)) \<longrightarrow>
    imgs \<noteq> [] \<longrightarrow> (\<forall>i \<in> set imgs. width i = width (hd imgs) \<and> height i = height (hd imgs)) \<longrightarrow>
    (\<exists>hdr. CreateHDR lib imgs = Inr hdr))"
proof (intro conjI allI impI)
  show "list_all2 (\<lambda>img m. mtype m = CV_8UC3 \<and> rows m = height img \<and> cols m = width img)
     imgs (cv_images_of lib imgs)" by (rule cv_images_shape)
next
  fix e
  show "CreateHDR lib imgs = Inl e \<longleftrightarrow> mergeMertens lib (cv_images_of lib imgs) = Inl e"
    by (cases "mergeMertens lib (cv_images_of lib imgs)") (simp_all add: CreateHDR_def)
next
  assume acc: "\<forall>ms w h. ms \<noteq> [] \<and>
      list_all (\<lambda>m. mtype m = CV_8UC3 \<and> rows m = h \<and> cols m = w) ms
        \<longrightarrow> (\<exists>r. mergeMertens lib ms = Inr r)"
    and ne: "imgs \<noteq> []"
    and same: "\<forall>i \<in> set imgs. width i = width (hd imgs) \<and> height i = height (hd imgs)"
  have "\<exists>r. mergeMertens lib (cv_images_of lib imgs) = Inr r"
    using acc cv_images_nonempty[OF ne, of lib] cv_images_same_shape[OF same, of lib] by blast
  then show "\<exists>hdr. CreateHDR lib imgs = Inr hdr"
    by (auto simp: CreateHDR_def)
qed

lemma test_mergeMertens_accepts:
  assumes "ms \<noteq> []" "list_all (\<lambda>m. mtype m = CV_8UC3 \<and> rows m = h \<and> cols m = w) ms"
  shows "\<exists>r. test_mergeMertens ms = Inr r"
proof (cases ms)
  case Nil
  then show ?thesis using assms by simp
next
  case (Cons m rest)
  then have "list_all (same_shape m) rest"
    using assms(2) by (auto simp: same_shape_def list_all_iff)
  then show ?thesis using Cons by (simp add: test_mergeMertens_def)
qed

theorem fusion_checks_nothing_witness:
  "[frame PixelType_Mono8 [7], frame PixelType_BGR8packed [1, 9, 3]] \<noteq> [] \<and>
   list_all (\<lambda>i. width i = 1 \<and> height i = 1)
     [frame PixelType_Mono8 [7], frame PixelType_BGR8packed [1, 9, 3]] \<and>
   (\<exists>hdr. CreateHDR test_externals
            [frame PixelType_Mono8 [7], frame PixelType_BGR8packed [1, 9, 3]] = Inr hdr)"
proof -
  let ?imgs = "[frame PixelType_Mono8 [7], frame PixelType_BGR8packed [1, 9, 3]]"
  have acc: "\<forall>ms w h. ms \<noteq> [] \<and>
        list_all (\<lambda>m. mtype m = CV_8UC3 \<and> rows m = h \<and> cols m = w) ms
        \<longrightarrow> (\<exists>r. mergeMertens test_externals ms = Inr r)"
    using test_mergeMertens_accepts by (auto simp: test_externals_def)
  have ne: "?imgs \<noteq> []" by simp
  have same: "\<forall>i \<in> set ?imgs. width i = width (hd ?imgs) \<and> height i = height (hd ?imgs)"
    by (simp add: frame_def)
  have "\<exists>hdr. CreateHDR test_externals ?imgs = Inr hdr"
    using fusion_checks_nothing[of ?imgs test_externals] acc ne same by blast
  then show ?thesis by (simp add: frame_def)
qed

end
